theory Spec2Isabelle
  imports Complex_Main "HOL-Library.Word"
begin

unbundle bit_operations_syntax

section \<open>Script-variable substitution (\<open>MANTA::getRealValue\<close>, \<open>MANTA::parseLine\<close>)\<close>

text \<open>
  \<open>ss << mCurrentID\<close> prints an \<open>int\<close> in decimal.
\<close>

fun dec_digits :: "nat \<Rightarrow> string" where
  "dec_digits n =
     (if n < 10 then [char_of (48 + n)] else dec_digits (n div 10) @ [char_of (48 + n mod 10)])"

definition string_of_int :: "int \<Rightarrow> string" where
  "string_of_int i = (if i < 0 then CHR ''-'' # dec_digits (nat (- i)) else dec_digits (nat i))"

text \<open>
  The names compared with \<open>varName\<close> in the \<open>else if\<close> chain of \<open>getRealValue\<close>, in the
  order of the source, after the separate test for \<open>"ID"\<close>.
\<close>

definition recognized_keys :: "string list" where
  "recognized_keys = [
    ''USING_SMOKE'', ''USING_LIQUID'', ''USING_COLORS'', ''USING_HEAT'', ''USING_FIRE'',
    ''USING_NOISE'', ''USING_OBSTACLE'', ''USING_GUIDING'', ''USING_INVEL'', ''USING_OUTFLOW'',
    ''USING_LOG_DISSOLVE'', ''USING_DISSOLVE'', ''SOLVER_DIM'', ''DO_OPEN'',
    ''BOUND_CONDITIONS'', ''BOUNDARY_WIDTH'', ''RES'', ''RESX'', ''RESY'', ''RESZ'',
    ''FRAME_LENGTH'', ''CFL'', ''DT'', ''TIMESTEPS_MIN'', ''TIMESTEPS_MAX'', ''TIME_TOTAL'',
    ''TIME_PER_FRAME'', ''VORTICITY'', ''FLAME_VORTICITY'', ''NOISE_SCALE'', ''MESH_SCALE'',
    ''PARTICLE_SCALE'', ''NOISE_RESX'', ''NOISE_RESY'', ''NOISE_RESZ'', ''MESH_RESX'',
    ''MESH_RESY'', ''MESH_RESZ'', ''PARTICLE_RESX'', ''PARTICLE_RESY'', ''PARTICLE_RESZ'',
    ''GUIDING_RESX'', ''GUIDING_RESY'', ''GUIDING_RESZ'', ''MIN_RESX'', ''MIN_RESY'',
    ''MIN_RESZ'', ''BASE_RESX'', ''BASE_RESY'', ''BASE_RESZ'', ''WLT_STR'', ''NOISE_POSSCALE'',
    ''NOISE_TIMEANIM'', ''COLOR_R'', ''COLOR_G'', ''COLOR_B'', ''BUOYANCY_ALPHA'',
    ''BUOYANCY_BETA'', ''DISSOLVE_SPEED'', ''BURNING_RATE'', ''FLAME_SMOKE'',
    ''IGNITION_TEMP'', ''MAX_TEMP'', ''FLAME_SMOKE_COLOR_X'', ''FLAME_SMOKE_COLOR_Y'',
    ''FLAME_SMOKE_COLOR_Z'', ''CURRENT_FRAME'', ''START_FRAME'', ''END_FRAME'',
    ''CACHE_DATA_FORMAT'', ''CACHE_MESH_FORMAT'', ''CACHE_NOISE_FORMAT'',
    ''CACHE_PARTICLE_FORMAT'', ''SIMULATION_METHOD'', ''FLIP_RATIO'', ''PARTICLE_RANDOMNESS'',
    ''PARTICLE_NUMBER'', ''PARTICLE_MINIMUM'', ''PARTICLE_MAXIMUM'', ''PARTICLE_RADIUS'',
    ''FRACTIONS_THRESHOLD'', ''MESH_CONCAVE_UPPER'', ''MESH_CONCAVE_LOWER'',
    ''MESH_PARTICLE_RADIUS'', ''MESH_SMOOTHEN_POS'', ''MESH_SMOOTHEN_NEG'', ''USING_MESH'',
    ''USING_IMPROVED_MESH'', ''PARTICLE_BAND_WIDTH'', ''SNDPARTICLE_TAU_MIN_WC'',
    ''SNDPARTICLE_TAU_MAX_WC'', ''SNDPARTICLE_TAU_MIN_TA'', ''SNDPARTICLE_TAU_MAX_TA'',
    ''SNDPARTICLE_TAU_MIN_K'', ''SNDPARTICLE_TAU_MAX_K'', ''SNDPARTICLE_K_WC'',
    ''SNDPARTICLE_K_TA'', ''SNDPARTICLE_K_B'', ''SNDPARTICLE_K_D'', ''SNDPARTICLE_L_MIN'',
    ''SNDPARTICLE_L_MAX'', ''SNDPARTICLE_BOUNDARY_DELETE'', ''SNDPARTICLE_BOUNDARY_PUSHOUT'',
    ''SNDPARTICLE_POTENTIAL_RADIUS'', ''SNDPARTICLE_UPDATE_RADIUS'',
    ''LIQUID_SURFACE_TENSION'', ''FLUID_VISCOSITY'', ''FLUID_DOMAIN_SIZE'',
    ''SNDPARTICLE_TYPES'', ''USING_SNDPARTS'', ''GUIDING_ALPHA'', ''GUIDING_BETA'',
    ''GUIDING_FACTOR'', ''GRAVITY_X'', ''GRAVITY_Y'', ''GRAVITY_Z'', ''CACHE_DIR'',
    ''CACHE_RESUMABLE'', ''USING_ADAPTIVETIME'', ''USING_SPEEDVECTORS'', ''USING_FRACTIONS'',
    ''DELETE_IN_OBSTACLE'', ''USING_DIFFUSION'']"

text \<open>
  The four names whose branch streams \<open>getCacheFileEnding(...)\<close>; that function writes
  a line to \<open>std::cerr\<close> when it does not know the cache format.
\<close>

definition cache_format_keys :: "string list" where
  "cache_format_keys =
     [''CACHE_DATA_FORMAT'', ''CACHE_MESH_FORMAT'', ''CACHE_NOISE_FORMAT'',
      ''CACHE_PARTICLE_FORMAT'']"

text \<open>
  \<open>getRealValue\<close> returns the content of the string stream \<open>ss\<close>, and writes to
  \<open>std::cerr\<close>; the model returns both, the second component being the lines sent to
  \<open>std::cerr\<close>. The modifier data is a pointer that may be null: \<open>'m option\<close>.
  What the branch of a recognised name streams depends on the domain settings and on the
  number formatting of the stream; it is the parameter \<open>streamed\<close>, which gives the text
  and, for the four branches that call \<open>getCacheFileEnding\<close>, the lines that this call
  writes to \<open>std::cerr\<close>; the other branches of a recognised name write nothing there.
  The three cases decided without it (\<open>"ID"\<close>, null modifier data, the final \<open>else\<close>) are
  as in the source.
\<close>

definition getRealValue ::
  "(string \<Rightarrow> 'm \<Rightarrow> string \<times> string list) \<Rightarrow> int \<Rightarrow> string \<Rightarrow> 'm option \<Rightarrow>
   string \<times> string list" where
  "getRealValue streamed mCurrentID varName mmd =
     (if varName = ''ID'' then (string_of_int mCurrentID, [])
      else case mmd of
        None \<Rightarrow> (''ERROR - INVALID MODIFIER DATA'', [''Fluid Error -- Invalid modifier data.''])
      | Some m \<Rightarrow>
          if varName \<in> set recognized_keys then
            (if varName \<in> set cache_format_keys then streamed varName m
             else (fst (streamed varName m), []))
          else ([], [''Fluid Error -- Unknown option: '' @ varName]))"

text \<open>
  \<open>std::string::substr(pos, count)\<close>: the arguments are \<open>size_t\<close>, so an \<open>int\<close> argument
  is converted modulo \<open>2^64\<close>; a position beyond the size throws \<open>std::out_of_range\<close>
  (\<open>None\<close>), and the count is cut at the end of the string.
\<close>

definition size_t_of_int :: "int \<Rightarrow> nat" where
  "size_t_of_int i = nat (i mod 2 ^ 64)"

definition substr :: "string \<Rightarrow> int \<Rightarrow> int \<Rightarrow> string option" where
  "substr s pos cnt =
     (if size_t_of_int pos > length s then None
      else Some (take (size_t_of_int cnt) (drop (size_t_of_int pos) s)))"

text \<open>
  The \<open>while\<close> loop of \<open>parseLine\<close>. The loop state is the source's: \<open>currPos\<close>,
  \<open>start_del\<close>, \<open>end_del\<close>, \<open>readingVar\<close> and \<open>res\<close>, with the lines written to
  \<open>std::cerr\<close> so far. The result is \<open>None\<close> when \<open>substr\<close> throws.
\<close>

function parseLine_loop ::
  "(string \<Rightarrow> string \<times> string list) \<Rightarrow> string \<Rightarrow> int \<Rightarrow> int \<Rightarrow> int \<Rightarrow> bool \<Rightarrow> string \<Rightarrow>
   string list \<Rightarrow> (string \<times> int \<times> string list) option" where
  "parseLine_loop gv line currPos start_del end_del readingVar res err =
     (if 0 \<le> currPos \<and> nat currPos < length line then
        if line ! nat currPos = CHR ''$'' \<and> \<not> readingVar then
          (case substr line (end_del + 1) (currPos - end_del - 1) of
             None \<Rightarrow> None
           | Some t \<Rightarrow> parseLine_loop gv line (currPos + 1) (currPos + 1) end_del True (res @ t) err)
        else if line ! nat currPos = CHR ''$'' \<and> readingVar then
          (case substr line start_del (currPos - start_del) of
             None \<Rightarrow> None
           | Some name \<Rightarrow>
               parseLine_loop gv line (currPos + 1) start_del currPos False
                 (res @ fst (gv name)) (err @ snd (gv name)))
        else parseLine_loop gv line (currPos + 1) start_del end_del readingVar res err
      else Some (res, end_del, err))"
  by pat_completeness auto
termination
  by (relation "measure (\<lambda>(gv, line, currPos, rest). length line - nat currPos)") auto

definition parseLine ::
  "(string \<Rightarrow> 'm \<Rightarrow> string \<times> string list) \<Rightarrow> int \<Rightarrow> string \<Rightarrow> 'm option \<Rightarrow>
   (string \<times> string list) option" where
  "parseLine streamed mCurrentID line mmd =
     (if length line = 0 then Some ([], [])
      else
        case parseLine_loop (\<lambda>name. getRealValue streamed mCurrentID name mmd) line 0 0 (- 1)
               False [] [] of
          None \<Rightarrow> None
        | Some (res, end_del, err) \<Rightarrow>
            (case substr line (end_del + 1) (int (length line) - end_del) of
               None \<Rightarrow> None
             | Some t \<Rightarrow> Some (res @ t, err)))"


section \<open>Cache files: the byte stream read through zlib\<close>

text \<open>
  An opened \<open>gzFile\<close> is the sequence of uncompressed bytes not read yet, together
  with the status that \<open>gzclose\<close> will report. \<open>BLI_gzopen\<close> returning a null handle
  is \<open>None\<close> at the call sites. Memory that receives a read is a list of bytes; values of
  type \<open>int\<close> and \<open>float\<close> are kept as the 32-bit word of their object representation,
  decoded least significant byte first (the byte order of the supported hosts).
\<close>

type_synonym byte = "8 word"
type_synonym float32 = "32 word"

record gzfile =
  gz_data :: "byte list"
  gz_close_ok :: bool

text \<open>
  \<open>gzread(gzf, buf, len)\<close> copies at most \<open>len\<close> bytes to the start of \<open>buf\<close>, leaves the
  rest of \<open>buf\<close> as it was, and returns the number of bytes copied; it returns fewer than
  \<open>len\<close> bytes only at the end of the data. A length that does not fit in an \<open>int\<close> is
  refused with \<open>-1\<close>. The arguments are the handle, the old content of the destination
  and the length as \<open>unsigned\<close>.
\<close>

definition gzread :: "gzfile \<Rightarrow> byte list \<Rightarrow> nat \<Rightarrow> int \<times> byte list \<times> gzfile" where
  "gzread gzf buf len =
     (if 2 ^ 31 \<le> len then (- 1, buf, gzf)
      else
        let got = take len (gz_data gzf)
        in (int (length got), got @ drop (length got) buf,
            gzf\<lparr>gz_data := drop len (gz_data gzf)\<rparr>))"

text \<open>A read into a local variable that the function never looks at again.\<close>

definition gzread_unused :: "gzfile \<Rightarrow> nat \<Rightarrow> gzfile" where
  "gzread_unused gzf len = snd (snd (gzread gzf [] len))"

definition le32 :: "byte list \<Rightarrow> 32 word" where
  "le32 bs = foldr (\<lambda>b w. ucast b OR push_bit 8 w) (take 4 bs) 0"

definition enc32 :: "32 word \<Rightarrow> byte list" where
  "enc32 w = [ucast w, ucast (drop_bit 8 w), ucast (drop_bit 16 w), ucast (drop_bit 24 w)]"

text \<open>Element \<open>i\<close> of an array of 32-bit values held in the bytes \<open>buf\<close>.\<close>

definition word_at :: "byte list \<Rightarrow> nat \<Rightarrow> 32 word" where
  "word_at buf i = le32 (take 4 (drop (4 * i) buf))"

definition bytes_of_string :: "string \<Rightarrow> byte list" where
  "bytes_of_string s = map (\<lambda>c. of_nat (of_char c)) s"

text \<open>
  \<open>!strcmp(file_magic, "XXXX")\<close>: \<open>file_magic\<close> is an array of five bytes, zero before the
  read of four bytes; the comparison stops at the first zero byte.
\<close>

definition c_string :: "byte list \<Rightarrow> byte list" where
  "c_string bs = takeWhile (\<lambda>b. b \<noteq> 0) bs"

definition magic_is :: "byte list \<Rightarrow> string \<Rightarrow> bool" where
  "magic_is file_magic s = (c_string file_magic = bytes_of_string s)"

text \<open>The ways in which a function of the bridge does not return.\<close>

datatype failure = AssertionFailed | OutOfRange | LengthError | NullPointer

section \<open>Dense grids (\<open>MANTA::updateGridFromUni\<close>, \<open>MANTA::updateGridFromRaw\<close>)\<close>

record solver_res =
  mResX :: "32 word"
  mResY :: "32 word"
  mResZ :: "32 word"
  mResXNoise :: "32 word"
  mResYNoise :: "32 word"
  mResZNoise :: "32 word"

text \<open>
  Local variables that are read before the function has set all of their bytes (a read
  may stop short) start with indeterminate content, which is an argument of the model.
\<close>

record uninit =
  u_ibuffer :: "byte list"
  u_elementType :: "byte list"
  u_bytesPerElement :: "byte list"
  u_fbuffer :: "byte list"
  u_buffer :: "byte list"
  u_bufferNormals :: "byte list"
  u_bufferTriangles :: "byte list"

text \<open>
  \<open>sizeof(float) * x * y * z\<close> is computed in \<open>size_t\<close> (each \<open>int\<close> sign-extended to 64
  bits) and then narrowed: to \<open>unsigned\<close> as the length argument of \<open>gzread\<close>, to \<open>int\<close>
  in \<open>expectedBytes\<close>; both keep the low 32 bits.
\<close>

definition grid_bytes :: "32 word \<Rightarrow> 32 word \<Rightarrow> 32 word \<Rightarrow> 32 word" where
  "grid_bytes x y z = ucast ((4 :: 64 word) * scast x * scast y * scast z)"

definition updateGridFromUni ::
  "solver_res \<Rightarrow> uninit \<Rightarrow> gzfile option \<Rightarrow> byte list \<Rightarrow> bool \<Rightarrow> bool \<times> byte list" where
  "updateGridFromUni s u f grid isNoise =
     (case f of
        None \<Rightarrow> (False, grid)
      | Some gzf0 \<Rightarrow>
          let (readBytes, file_magic, gzf1) = gzread gzf0 [0, 0, 0, 0, 0] 4
          in if readBytes = 0 then (False, grid)
             else if magic_is file_magic ''DDF2'' then (False, grid)
             else if magic_is file_magic ''MNT1'' then (False, grid)
             else if magic_is file_magic ''MNT2'' then (False, grid)
             else
               let (r2, ibuffer, gzf2) = gzread gzf1 (u_ibuffer u) 16;
                   gzf3 = gzread_unused gzf2 4;
                   gzf4 = gzread_unused gzf3 4;
                   gzf5 = gzread_unused gzf4 252;
                   gzf6 = gzread_unused gzf5 4;
                   gzf7 = gzread_unused gzf6 8;
                   resX = (if isNoise then mResXNoise s else mResX s);
                   resY = (if isNoise then mResYNoise s else mResY s);
                   resZ = (if isNoise then mResZNoise s else mResZ s)
               in if word_at ibuffer 0 \<noteq> resX \<or> word_at ibuffer 1 \<noteq> resY
                     \<or> word_at ibuffer 2 \<noteq> resZ
                  then (False, grid)
                  else if magic_is file_magic ''MNT3'' then
                    let (r8, grid', gzf8) =
                          gzread gzf7 grid
                            (unat (grid_bytes (word_at ibuffer 0) (word_at ibuffer 1)
                                     (word_at ibuffer 2)))
                    in (gz_close_ok gzf8, grid')
                  else (gz_close_ok gzf7, grid))"

text \<open>
  \<open>assert\<close> is compiled only into debug builds: \<open>debug\<close> says which build runs.
\<close>

definition updateGridFromRaw ::
  "bool \<Rightarrow> solver_res \<Rightarrow> gzfile option \<Rightarrow> byte list \<Rightarrow> bool \<Rightarrow> failure + bool \<times> byte list" where
  "updateGridFromRaw debug s f grid isNoise =
     (case f of
        None \<Rightarrow> Inr (False, grid)
      | Some gzf0 \<Rightarrow>
          let resX = (if isNoise then mResXNoise s else mResX s);
              resY = (if isNoise then mResYNoise s else mResY s);
              resZ = (if isNoise then mResZNoise s else mResZ s);
              expectedBytes = grid_bytes resX resY resZ;
              (readBytes, grid', gzf1) = gzread gzf0 grid (unat expectedBytes)
          in if readBytes = 0 then Inr (False, grid')
             else if debug \<and> sint expectedBytes \<noteq> readBytes then Inl AssertionFailed
             else Inr (gz_close_ok gzf1, grid'))"


section \<open>Chunked reads of record arrays\<close>

definition PARTICLE_CHUNK :: int where "PARTICLE_CHUNK = 20000"
definition NODE_CHUNK :: int where "NODE_CHUNK = 20000"
definition TRIANGLE_CHUNK :: int where "TRIANGLE_CHUNK = 20000"

subsection \<open>The number of chunks: \<open>(int)(ceil((float)n / CHUNK))\<close>\<close>

text \<open>
  The division is a single-precision one: \<open>n\<close> is converted to \<open>float\<close> (24 significant
  bits, round to nearest, ties to even), the chunk size is converted exactly, and the
  quotient is rounded to \<open>float\<close> again. All values that occur lie in the normal range of
  the format, so neither overflow nor subnormal numbers are modelled.
\<close>

fun bit_length :: "nat \<Rightarrow> nat" where
  "bit_length n = (if n = 0 then 0 else Suc (bit_length (n div 2)))"

text \<open>\<open>p / q\<close> rounded to the nearest integer, ties to the even one, for \<open>q > 0\<close>.\<close>

definition round_half_even :: "int \<Rightarrow> int \<Rightarrow> int" where
  "round_half_even p q =
     (let f = p div q; r = p mod q
      in if 2 * r < q then f else if q < 2 * r then f + 1 else if even f then f else f + 1)"

text \<open>\<open>(float)n\<close> for an \<open>int\<close>; the result is an integer.\<close>

definition float_of_int :: "int \<Rightarrow> int" where
  "float_of_int n =
     (let a = \<bar>n\<bar>; sh = bit_length (nat a) - 24
      in sgn n * round_half_even a (2 ^ sh) * 2 ^ sh)"

text \<open>The integer \<open>e\<close> with \<open>2^e \<le> p / q < 2^(e+1)\<close>, for positive \<open>p\<close> and \<open>q\<close>.\<close>

definition ilog2_ratio :: "int \<Rightarrow> int \<Rightarrow> int" where
  "ilog2_ratio p q =
     (let e0 = int (bit_length (nat p)) - int (bit_length (nat q))
      in if (if 0 \<le> e0 then 2 ^ nat e0 * q \<le> p else q \<le> p * 2 ^ nat (- e0)) then e0
         else e0 - 1)"

text \<open>
  The \<open>float\<close> nearest to \<open>p / q\<close>, for \<open>q > 0\<close>, as a pair \<open>(m, s)\<close> that stands for
  \<open>m * 2^s\<close>: the exponent \<open>s\<close> is that of the last of the 24 significant bits.
\<close>

definition float_div :: "int \<Rightarrow> int \<Rightarrow> int \<times> int" where
  "float_div p q =
     (if p = 0 then (0, 0)
      else
        let s = ilog2_ratio \<bar>p\<bar> q - 23;
            m = (if 0 \<le> s then round_half_even \<bar>p\<bar> (q * 2 ^ nat s)
                 else round_half_even (\<bar>p\<bar> * 2 ^ nat (- s)) q)
        in (sgn p * m, s))"

text \<open>\<open>(int)ceil(x)\<close> for \<open>x = m * 2^s\<close>.\<close>

definition ceil_float :: "int \<times> int \<Rightarrow> int" where
  "ceil_float x =
     (case x of (m, s) \<Rightarrow> if 0 \<le> s then m * 2 ^ nat s else - ((- m) div 2 ^ nat (- s)))"

definition num_chunks :: "int \<Rightarrow> int \<Rightarrow> int" where
  "num_chunks n chunk = ceil_float (float_div (float_of_int n) chunk)"

subsection \<open>Vectors and records\<close>

text \<open>
  Modelled from the spec: the structures \<open>MANTA::Node\<close>, \<open>MANTA::Triangle\<close>,
  \<open>MANTA::pData\<close> and \<open>MANTA::pVel\<close> are declared in \<open>MANTA_main.h\<close>, which is not
  among the sources. The spec gives the records of the files: a vertex and a normal are
  three floats, a triangle three ints, a particle a 3D position and an integer flag
  (16 bytes, as \<open>partSysSize\<close> in the source confirms), a velocity three floats. The
  records below hold the fields that the readers assign; a new element of a resized vector
  is value-initialised, that is, zero.
\<close>

type_synonym vec3 = "32 word \<times> 32 word \<times> 32 word"

record Node =
  node_pos :: vec3
  node_normal :: vec3

record Triangle =
  tri_c :: vec3

record pData =
  pData_pos :: vec3
  pData_flag :: "32 word"

record pVel =
  pVel_pos :: vec3

definition Node0 :: Node where "Node0 = \<lparr>node_pos = (0, 0, 0), node_normal = (0, 0, 0)\<rparr>"
definition Triangle0 :: Triangle where "Triangle0 = \<lparr>tri_c = (0, 0, 0)\<rparr>"
definition pData0 :: pData where "pData0 = \<lparr>pData_pos = (0, 0, 0), pData_flag = 0\<rparr>"
definition pVel0 :: pVel where "pVel0 = \<lparr>pVel_pos = (0, 0, 0)\<rparr>"

definition vec3_of :: "byte list \<Rightarrow> vec3" where
  "vec3_of r = (word_at r 0, word_at r 1, word_at r 2)"

text \<open>The assignments of the inner loops, from the bytes of record \<open>k\<close> of the buffer.\<close>

definition put_pos :: "byte list \<Rightarrow> Node \<Rightarrow> Node" where
  "put_pos r n = n\<lparr>node_pos := vec3_of r\<rparr>"

definition put_normal :: "byte list \<Rightarrow> Node \<Rightarrow> Node" where
  "put_normal r n = n\<lparr>node_normal := vec3_of r\<rparr>"

definition put_tri :: "byte list \<Rightarrow> Triangle \<Rightarrow> Triangle" where
  "put_tri r t = t\<lparr>tri_c := vec3_of r\<rparr>"

definition put_pData :: "byte list \<Rightarrow> pData \<Rightarrow> pData" where
  "put_pData r p = p\<lparr>pData_pos := vec3_of r, pData_flag := word_at r 3\<rparr>"

definition put_pVel :: "byte list \<Rightarrow> pVel \<Rightarrow> pVel" where
  "put_pVel r v = v\<lparr>pVel_pos := vec3_of r\<rparr>"

definition put_life :: "byte list \<Rightarrow> float32 \<Rightarrow> float32" where
  "put_life r l = word_at r 0"

text \<open>
  \<open>std::vector::resize(n)\<close> with an \<open>int\<close> argument: a negative \<open>n\<close> becomes a size
  beyond \<open>max_size()\<close> and throws \<open>std::length_error\<close>.
\<close>

definition resize :: "'a \<Rightarrow> 'a list \<Rightarrow> int \<Rightarrow> failure + 'a list" where
  "resize dflt v n =
     (if n < 0 then Inl LengthError
      else Inr (take (nat n) v @ replicate (nat n - length v) dflt))"

text \<open>
  Modelled from the spec: the macro \<open>CLAMP\<close> comes from \<open>BLI_utildefines.h\<close>, which is
  not among the sources; it is taken as the assignment that its name and its use say,
  \<open>if (a < b) a = b; else if (a > c) a = c;\<close>.
\<close>

definition CLAMP :: "int \<Rightarrow> int \<Rightarrow> int \<Rightarrow> int" where
  "CLAMP a b c = (if a < b then b else if c < a then c else a)"

subsection \<open>The loops\<close>

text \<open>
  The inner loop \<open>for (j = readStart; j < readEnd; j++, k++)\<close>: element \<open>j\<close> of the
  vector, reached through \<open>at(j)\<close> (which throws \<open>std::out_of_range\<close> beyond the size),
  is assigned from record \<open>k\<close> of the buffer; \<open>sz\<close> is the size of a record in bytes.
\<close>

fun store_records ::
  "(byte list \<Rightarrow> 'a \<Rightarrow> 'a) \<Rightarrow> nat \<Rightarrow> byte list \<Rightarrow> nat list \<Rightarrow> nat \<Rightarrow> 'a list \<Rightarrow> failure + 'a list" where
  "store_records put sz buf [] k dst = Inr dst"
| "store_records put sz buf (j # js) k dst =
     (if j < length dst
      then store_records put sz buf js (Suc k)
             (dst[j := put (take sz (drop (sz * k) buf)) (dst ! j)])
      else Inl OutOfRange)"

text \<open>
  The outer loop \<open>for (int i = 0; i < numChunks && todo > 0; ++i)\<close>, the same in the six
  readers up to the chunk size, the record size and the assignment. The result is the
  vector, the handle, and \<open>False\<close> where the source returns \<open>false\<close> from inside the loop.
\<close>

function chunk_loop ::
  "int \<Rightarrow> (byte list \<Rightarrow> 'a \<Rightarrow> 'a) \<Rightarrow> nat \<Rightarrow> int \<Rightarrow> int \<Rightarrow> int \<Rightarrow> int \<Rightarrow> byte list \<Rightarrow> gzfile \<Rightarrow>
   'a list \<Rightarrow> failure + bool \<times> 'a list \<times> gzfile" where
  "chunk_loop CHUNK put sz numChunks numBuffer i todo buf gzf dst =
     (if i < numChunks \<and> 0 < todo then
        let readLen = (if todo < CHUNK then todo else CHUNK);
            (readBytes, buf', gzf') = gzread gzf buf (nat readLen * sz)
        in if readBytes = 0 then Inr (False, dst, gzf')
           else
             let readStart = CLAMP (numBuffer - todo) 0 numBuffer;
                 readEnd = CLAMP (readStart + readLen) 0 numBuffer
             in case store_records put sz buf' [nat readStart..<nat readEnd] 0 dst of
                  Inl e \<Rightarrow> Inl e
                | Inr dst' \<Rightarrow>
                    chunk_loop CHUNK put sz numChunks numBuffer (i + 1) (todo - readLen)
                      buf' gzf' dst'
      else Inr (True, dst, gzf))"
  by pat_completeness auto
termination
  by (relation "measure (\<lambda>(CHUNK, put, sz, numChunks, numBuffer, i, rest). nat (numChunks - i))")
     auto


text \<open>
  What the loops are meant to leave in the vector: the elements \<open>start\<close>, ...,
  \<open>start + cnt - 1\<close> assigned from the records \<open>0\<close>, ..., \<open>cnt - 1\<close> of the bytes, the
  other elements as they were.
\<close>

definition written ::
  "(byte list \<Rightarrow> 'a \<Rightarrow> 'a) \<Rightarrow> nat \<Rightarrow> byte list \<Rightarrow> nat \<Rightarrow> nat \<Rightarrow> 'a list \<Rightarrow> 'a list" where
  "written put sz bytes start cnt dst =
     map (\<lambda>j. if start \<le> j \<and> j < start + cnt
              then put (take sz (drop (sz * (j - start)) bytes)) (dst ! j) else dst ! j)
       [0..<length dst]"

section \<open>Particles (\<open>MANTA::updateParticlesFromUni\<close>)\<close>

text \<open>
  The vectors that the solver shares with the bridge. \<open>dataPointer\<close> and
  \<open>velocityPointer\<close> select the secondary or the FLIP system; \<open>lifePointer\<close> stays null
  for the FLIP system.
\<close>

record particles =
  mFlipParticleData :: "pData list"
  mFlipParticleVelocity :: "pVel list"
  mSndParticleData :: "pData list"
  mSndParticleVelocity :: "pVel list"
  mSndParticleLife :: "float32 list"

definition dataPointer :: "bool \<Rightarrow> particles \<Rightarrow> pData list" where
  "dataPointer isSecondarySys st =
     (if isSecondarySys then mSndParticleData st else mFlipParticleData st)"

definition set_dataPointer :: "bool \<Rightarrow> pData list \<Rightarrow> particles \<Rightarrow> particles" where
  "set_dataPointer isSecondarySys v st =
     (if isSecondarySys then st\<lparr>mSndParticleData := v\<rparr> else st\<lparr>mFlipParticleData := v\<rparr>)"

definition velocityPointer :: "bool \<Rightarrow> particles \<Rightarrow> pVel list" where
  "velocityPointer isSecondarySys st =
     (if isSecondarySys then mSndParticleVelocity st else mFlipParticleVelocity st)"

definition set_velocityPointer :: "bool \<Rightarrow> pVel list \<Rightarrow> particles \<Rightarrow> particles" where
  "set_velocityPointer isSecondarySys v st =
     (if isSecondarySys then st\<lparr>mSndParticleVelocity := v\<rparr>
      else st\<lparr>mFlipParticleVelocity := v\<rparr>)"

text \<open>
  One of the three branches on the magic: resize the vector, run the chunk loop, return
  \<open>false\<close> from inside the loop or go on to \<open>gzclose\<close>.
\<close>

definition read_chunked ::
  "int \<Rightarrow> 'a \<Rightarrow> (byte list \<Rightarrow> 'a \<Rightarrow> 'a) \<Rightarrow> nat \<Rightarrow> int \<Rightarrow> int \<Rightarrow> byte list \<Rightarrow> gzfile \<Rightarrow> 'a list \<Rightarrow>
   failure + bool \<times> 'a list \<times> gzfile" where
  "read_chunked CHUNK dflt put sz numChunks n buf gzf v =
     (case resize dflt v n of
        Inl e \<Rightarrow> Inl e
      | Inr v' \<Rightarrow> chunk_loop CHUNK put sz numChunks n 0 n buf gzf v')"

definition updateParticlesFromUni ::
  "uninit \<Rightarrow> gzfile option \<Rightarrow> bool \<Rightarrow> bool \<Rightarrow> particles \<Rightarrow> failure + bool \<times> particles" where
  "updateParticlesFromUni u f isSecondarySys isVelData st =
     (case f of
        None \<Rightarrow> Inr (False, st)
      | Some gzf0 \<Rightarrow>
          let (readBytes, file_magic, gzf1) = gzread gzf0 [0, 0, 0, 0, 0] 4
          in if readBytes = 0 then Inr (False, st)
             else if magic_is file_magic ''PB01'' then Inr (False, st)
             else
               let (r2, ibuffer, gzf2) = gzread gzf1 (u_ibuffer u) 16;
                   (r3, elementType, gzf3) = gzread gzf2 (u_elementType u) 4;
                   (r4, bytesPerElement, gzf4) = gzread gzf3 (u_bytesPerElement u) 4;
                   gzf5 = gzread_unused gzf4 256;
                   gzf6 = gzread_unused gzf5 8
               in if le32 bytesPerElement \<noteq> 16 \<and> le32 elementType = 0 then Inr (False, st)
                  else if word_at ibuffer 0 = 0 then Inr (True, st)
                  else
                    let numParticles = sint (word_at ibuffer 0);
                        numChunks = num_chunks numParticles PARTICLE_CHUNK
                    in if magic_is file_magic ''PB02'' then
                         (case read_chunked PARTICLE_CHUNK pData0 put_pData 16 numChunks
                                 numParticles (u_buffer u) gzf6 (dataPointer isSecondarySys st) of
                            Inl e \<Rightarrow> Inl e
                          | Inr (ok, v, gzf7) \<Rightarrow>
                              Inr (ok \<and> gz_close_ok gzf7, set_dataPointer isSecondarySys v st))
                       else if magic_is file_magic ''PD01'' \<and> isVelData then
                         (case read_chunked PARTICLE_CHUNK pVel0 put_pVel 12 numChunks
                                 numParticles (u_buffer u) gzf6
                                 (velocityPointer isSecondarySys st) of
                            Inl e \<Rightarrow> Inl e
                          | Inr (ok, v, gzf7) \<Rightarrow>
                              Inr (ok \<and> gz_close_ok gzf7,
                                   set_velocityPointer isSecondarySys v st))
                       else if magic_is file_magic ''PD01'' then
                         (if \<not> isSecondarySys then Inl NullPointer
                          else
                            case read_chunked PARTICLE_CHUNK 0 put_life 4 numChunks
                                   numParticles (u_buffer u) gzf6 (mSndParticleLife st) of
                              Inl e \<Rightarrow> Inl e
                            | Inr (ok, v, gzf7) \<Rightarrow>
                                Inr (ok \<and> gz_close_ok gzf7, st\<lparr>mSndParticleLife := v\<rparr>))
                       else Inr (gz_close_ok gzf6, st))"

section \<open>Meshes (\<open>MANTA::updateMeshFromBobj\<close>, \<open>MANTA::updateMeshFromUni\<close>)\<close>

record mesh =
  mMeshNodes :: "Node list"
  mMeshTriangles :: "Triangle list"
  mMeshVelocities :: "pVel list option"

text \<open>
  \<open>getNumVertices\<close> is declared in \<open>MANTA_main.h\<close>, which is not among the sources: it
  is an argument of the model, applied to the vector of nodes. \<open>numBuffer\<close> is one
  variable, initialised to zero and read three times; \<open>numChunks\<close> is computed from the
  number of vertices, used by the loop of the normals as it is, and computed again from
  the number of triangles. The three sections \<open>if (numBuffer) { ... }\<close> are
  \<open>read_vertices\<close>, \<open>read_normals\<close> and \<open>read_triangles\<close>; a section that returns
  \<open>false\<close> from inside its loop gives \<open>False\<close> as first component.
\<close>

definition read_vertices ::
  "uninit \<Rightarrow> int \<Rightarrow> int \<Rightarrow> gzfile \<Rightarrow> Node list \<Rightarrow> failure + bool \<times> Node list \<times> gzfile" where
  "read_vertices u numChunks numBuffer gzf nodes =
     (if numBuffer \<noteq> 0
      then read_chunked NODE_CHUNK Node0 put_pos 12 numChunks numBuffer (u_buffer u) gzf nodes
      else Inr (True, nodes, gzf))"

definition read_normals ::
  "(Node list \<Rightarrow> int) \<Rightarrow> uninit \<Rightarrow> int \<Rightarrow> int \<Rightarrow> gzfile \<Rightarrow> Node list \<Rightarrow>
   failure + bool \<times> Node list \<times> gzfile" where
  "read_normals getNumVertices u numChunks numBuffer gzf nodes =
     (if numBuffer \<noteq> 0
      then (case (if getNumVertices nodes = 0 then resize Node0 nodes numBuffer
                  else Inr nodes) of
              Inl e \<Rightarrow> Inl e
            | Inr nodes' \<Rightarrow>
                chunk_loop NODE_CHUNK put_normal 12 numChunks numBuffer 0 numBuffer
                  (u_bufferNormals u) gzf nodes')
      else Inr (True, nodes, gzf))"

definition read_triangles ::
  "uninit \<Rightarrow> int \<Rightarrow> int \<Rightarrow> gzfile \<Rightarrow> Triangle list \<Rightarrow>
   failure + bool \<times> Triangle list \<times> gzfile" where
  "read_triangles u numChunks numBuffer gzf tris =
     (if numBuffer \<noteq> 0
      then read_chunked TRIANGLE_CHUNK Triangle0 put_tri 12 numChunks numBuffer
             (u_bufferTriangles u) gzf tris
      else Inr (True, tris, gzf))"

definition updateMeshFromBobj ::
  "(Node list \<Rightarrow> int) \<Rightarrow> uninit \<Rightarrow> gzfile option \<Rightarrow> mesh \<Rightarrow> failure + bool \<times> mesh" where
  "updateMeshFromBobj getNumVertices u f st =
     (case f of
        None \<Rightarrow> Inr (False, st)
      | Some gzf0 \<Rightarrow>
          (let (readBytes1, numBuffer1, gzf1) = gzread gzf0 [0, 0, 0, 0] 4
           in if readBytes1 = 0 then Inr (False, st)
              else
                (let numChunks = num_chunks (sint (le32 numBuffer1)) NODE_CHUNK
                 in case read_vertices u numChunks (sint (le32 numBuffer1)) gzf1
                           (mMeshNodes st) of
                      Inl e \<Rightarrow> Inl e
                    | Inr (ok1, nodes1, gzf2) \<Rightarrow>
                        if \<not> ok1 then Inr (False, st\<lparr>mMeshNodes := nodes1\<rparr>)
                        else
                          (let (readBytes2, numBuffer2, gzf3) = gzread gzf2 numBuffer1 4
                           in if readBytes2 = 0 then Inr (False, st\<lparr>mMeshNodes := nodes1\<rparr>)
                              else
                                (case read_normals getNumVertices u numChunks
                                        (sint (le32 numBuffer2)) gzf3 nodes1 of
                                   Inl e \<Rightarrow> Inl e
                                 | Inr (ok2, nodes2, gzf4) \<Rightarrow>
                                     if \<not> ok2 then Inr (False, st\<lparr>mMeshNodes := nodes2\<rparr>)
                                     else
                                       (let (readBytes3, numBuffer3, gzf5) =
                                              gzread gzf4 numBuffer2 4
                                        in if readBytes3 = 0
                                           then Inr (False, st\<lparr>mMeshNodes := nodes2\<rparr>)
                                           else
                                             (let numChunks' =
                                                    num_chunks (sint (le32 numBuffer3))
                                                      TRIANGLE_CHUNK
                                              in case read_triangles u numChunks'
                                                        (sint (le32 numBuffer3)) gzf5
                                                        (mMeshTriangles st) of
                                                   Inl e \<Rightarrow> Inl e
                                                 | Inr (ok3, tris, gzf6) \<Rightarrow>
                                                     Inr (ok3 \<and> gz_close_ok gzf6,
                                                          st\<lparr>mMeshNodes := nodes2,
                                                             mMeshTriangles := tris\<rparr>))))))))"

text \<open>
  The loop of \<open>updateMeshFromUni\<close> over the elements of the resized vector: one read of
  three floats into \<open>fbuffer\<close> for each element, its result not looked at.
\<close>

fun meshvel_loop :: "gzfile \<Rightarrow> byte list \<Rightarrow> pVel list \<Rightarrow> pVel list \<times> gzfile" where
  "meshvel_loop gzf fbuffer [] = ([], gzf)"
| "meshvel_loop gzf fbuffer (v # vs) =
     (let (r, fbuffer', gzf') = gzread gzf fbuffer 12;
          (vs', gzf'') = meshvel_loop gzf' fbuffer' vs
      in (v\<lparr>pVel_pos := vec3_of fbuffer'\<rparr> # vs', gzf''))"

definition updateMeshFromUni ::
  "uninit \<Rightarrow> gzfile option \<Rightarrow> mesh \<Rightarrow> failure + bool \<times> mesh" where
  "updateMeshFromUni u f st =
     (case f of
        None \<Rightarrow> Inr (False, st)
      | Some gzf0 \<Rightarrow>
          let (readBytes, file_magic, gzf1) = gzread gzf0 [0, 0, 0, 0, 0] 4
          in if readBytes = 0 then Inr (False, st)
             else
               let (r2, ibuffer, gzf2) = gzread gzf1 (u_ibuffer u) 16;
                   (r3, elementType, gzf3) = gzread gzf2 (u_elementType u) 4;
                   (r4, bytesPerElement, gzf4) = gzread gzf3 (u_bytesPerElement u) 4;
                   gzf5 = gzread_unused gzf4 256;
                   gzf6 = gzread_unused gzf5 8
               in if le32 bytesPerElement \<noteq> 16 \<and> le32 elementType = 0 then Inr (False, st)
                  else if word_at ibuffer 0 = 0 then Inr (False, st)
                  else if magic_is file_magic ''MB01'' then Inr (gz_close_ok gzf6, st)
                  else if magic_is file_magic ''MD01'' then
                    (case mMeshVelocities st of
                       None \<Rightarrow> Inl NullPointer
                     | Some vel \<Rightarrow>
                         (case resize pVel0 vel (sint (word_at ibuffer 0)) of
                            Inl e \<Rightarrow> Inl e
                          | Inr vel' \<Rightarrow>
                              let (vel'', gzf7) = meshvel_loop gzf6 (u_fbuffer u) vel'
                              in Inr (gz_close_ok gzf7, st\<lparr>mMeshVelocities := Some vel''\<rparr>)))
                  else Inr (gz_close_ok gzf6, st))"


section \<open>The configuration file (\<open>MANTA::writeConfiguration\<close>, \<open>MANTA::readConfiguration\<close>)\<close>

text \<open>
  The fields of \<open>FluidDomainSettings\<close> that the two functions touch. An \<open>int\<close> or a
  \<open>float\<close> is the 32-bit word of its object representation; an array is the list of its
  elements (\<open>obmat\<close>, a 4 by 4 matrix, row after row).
\<close>

record FluidDomainSettings =
  active_fields :: "32 word"
  res :: "32 word list"
  dx :: "32 word"
  dt :: "32 word"
  p0 :: "32 word list"
  p1 :: "32 word list"
  dp0 :: "32 word list"
  shift :: "32 word list"
  obj_shift_f :: "32 word list"
  obmat :: "32 word list"
  base_res :: "32 word list"
  res_min :: "32 word list"
  res_max :: "32 word list"
  active_color :: "32 word list"
  total_cells :: "32 word"

text \<open>The array lengths that the declaration of the structure fixes.\<close>

definition domain_wf :: "FluidDomainSettings \<Rightarrow> bool" where
  "domain_wf mds \<longleftrightarrow>
     length (res mds) = 3 \<and> length (p0 mds) = 3 \<and> length (p1 mds) = 3 \<and>
     length (dp0 mds) = 3 \<and> length (shift mds) = 3 \<and> length (obj_shift_f mds) = 3 \<and>
     length (obmat mds) = 16 \<and> length (base_res mds) = 3 \<and> length (res_min mds) = 3 \<and>
     length (res_max mds) = 3 \<and> length (active_color mds) = 3"

text \<open>The bytes of an array in memory.\<close>

definition mem32 :: "32 word list \<Rightarrow> byte list" where
  "mem32 ws = concat (map enc32 ws)"

text \<open>
  \<open>gzwrite(gzf, &field, len)\<close> appends \<open>len\<close> bytes of the field to the file; its result
  is not looked at by the source, and a failing write is not modelled.
\<close>

definition gzwrite :: "byte list \<Rightarrow> byte list \<Rightarrow> nat \<Rightarrow> byte list" where
  "gzwrite out mem len = out @ take len mem"

text \<open>
  \<open>gzread(gzf, &field, n * sizeof(int))\<close> into an array of \<open>n\<close> elements with the old
  content \<open>old\<close>, and the same for a scalar.
\<close>

definition read_array :: "gzfile \<Rightarrow> 32 word list \<Rightarrow> nat \<Rightarrow> 32 word list \<times> gzfile" where
  "read_array gzf old n =
     (let (r, mem, gzf') = gzread gzf (mem32 old) (4 * n)
      in (map (word_at mem) [0..<n], gzf'))"

definition read_scalar :: "gzfile \<Rightarrow> 32 word \<Rightarrow> 32 word \<times> gzfile" where
  "read_scalar gzf old =
     (let (r, mem, gzf') = gzread gzf (enc32 old) 4 in (le32 mem, gzf'))"

text \<open>
  The file opened for writing is \<open>None\<close> when \<open>BLI_gzopen\<close> fails, and otherwise says
  whether \<open>gzclose\<close> will return \<open>Z_OK\<close>. The result is the return value and the content
  of the file written.
\<close>

definition writeConfiguration ::
  "bool option \<Rightarrow> FluidDomainSettings \<Rightarrow> bool \<times> byte list option" where
  "writeConfiguration wfile mds =
     (case wfile of
        None \<Rightarrow> (False, None)
      | Some close_ok \<Rightarrow>
          (let o1 = gzwrite [] (enc32 (active_fields mds)) 4;
               o2 = gzwrite o1 (mem32 (res mds)) (3 * 4);
               o3 = gzwrite o2 (enc32 (dx mds)) 4;
               o4 = gzwrite o3 (enc32 (dt mds)) 4;
               o5 = gzwrite o4 (mem32 (p0 mds)) (3 * 4);
               o6 = gzwrite o5 (mem32 (p1 mds)) (3 * 4);
               o7 = gzwrite o6 (mem32 (dp0 mds)) (3 * 4);
               o8 = gzwrite o7 (mem32 (shift mds)) (3 * 4);
               o9 = gzwrite o8 (mem32 (obj_shift_f mds)) (3 * 4);
               o10 = gzwrite o9 (mem32 (obmat mds)) (16 * 4);
               o11 = gzwrite o10 (mem32 (base_res mds)) (3 * 4);
               o12 = gzwrite o11 (mem32 (res_min mds)) (3 * 4);
               o13 = gzwrite o12 (mem32 (res_max mds)) (3 * 4);
               o14 = gzwrite o13 (mem32 (active_color mds)) (3 * 4)
           in (close_ok, Some o14)))"

text \<open>
  \<open>readConfiguration\<close> returns \<open>false\<close> when \<open>hasConfig\<close> finds no file or
  \<open>BLI_gzopen\<close> fails (\<open>None\<close>). The time step is read into the local \<open>dummy\<close>
  (\<open>dt not needed right now\<close>); \<open>total_cells\<close> is the product of the resolution read, an
  \<open>int\<close> multiplication that is modelled as wrapping.
\<close>

definition readConfiguration ::
  "FluidDomainSettings \<Rightarrow> gzfile option \<Rightarrow> bool \<times> FluidDomainSettings" where
  "readConfiguration mds f =
     (case f of
        None \<Rightarrow> (False, mds)
      | Some gzf0 \<Rightarrow>
          (let (v1, gzf1) = read_scalar gzf0 (active_fields mds);
               (v2, gzf2) = read_array gzf1 (res mds) 3;
               (v3, gzf3) = read_scalar gzf2 (dx mds);
               gzf4 = gzread_unused gzf3 4;
               (v5, gzf5) = read_array gzf4 (p0 mds) 3;
               (v6, gzf6) = read_array gzf5 (p1 mds) 3;
               (v7, gzf7) = read_array gzf6 (dp0 mds) 3;
               (v8, gzf8) = read_array gzf7 (shift mds) 3;
               (v9, gzf9) = read_array gzf8 (obj_shift_f mds) 3;
               (v10, gzf10) = read_array gzf9 (obmat mds) 16;
               (v11, gzf11) = read_array gzf10 (base_res mds) 3;
               (v12, gzf12) = read_array gzf11 (res_min mds) 3;
               (v13, gzf13) = read_array gzf12 (res_max mds) 3;
               (v14, gzf14) = read_array gzf13 (active_color mds) 3
           in (gz_close_ok gzf14,
               mds\<lparr>active_fields := v1, res := v2, dx := v3, p0 := v5, p1 := v6, dp0 := v7,
                   shift := v8, obj_shift_f := v9, obmat := v10, base_res := v11,
                   res_min := v12, res_max := v13, active_color := v14,
                   total_cells := v2 ! 0 * v2 ! 1 * v2 ! 2\<rparr>)))"


section \<open>Concrete inputs\<close>

text \<open>
  Inputs at which the properties below are evaluated: indeterminate memory that happens to
  be zero, headers of the \<open>.uni\<close> files (magic, four \<open>int\<close>s, element type, bytes per
  element, and zero bytes for the rest of the header), a solver of resolution 1 by 1 by 2,
  empty vectors, and two domains.
\<close>

definition uninit0 :: uninit where
  "uninit0 = \<lparr>u_ibuffer = replicate 16 0, u_elementType = replicate 4 0,
              u_bytesPerElement = replicate 4 0, u_fbuffer = replicate 16 0,
              u_buffer = [], u_bufferNormals = [], u_bufferTriangles = []\<rparr>"

definition uni_grid_header :: "string \<Rightarrow> 32 word \<Rightarrow> 32 word \<Rightarrow> 32 word \<Rightarrow> byte list" where
  "uni_grid_header magic x y z =
     bytes_of_string magic @ enc32 x @ enc32 y @ enc32 z @ replicate 276 0"

definition uni_part_header :: "string \<Rightarrow> 32 word \<Rightarrow> 32 word \<Rightarrow> 32 word \<Rightarrow> byte list" where
  "uni_part_header magic n elementType bytesPerElement =
     bytes_of_string magic @ enc32 n @ enc32 1 @ enc32 1 @ enc32 1 @ enc32 elementType
     @ enc32 bytesPerElement @ replicate 264 0"

definition solver112 :: solver_res where
  "solver112 = \<lparr>mResX = 1, mResY = 1, mResZ = 2, mResXNoise = 2, mResYNoise = 2, mResZNoise = 4\<rparr>"

definition particles0 :: particles where
  "particles0 = \<lparr>mFlipParticleData = [], mFlipParticleVelocity = [], mSndParticleData = [],
                 mSndParticleVelocity = [], mSndParticleLife = []\<rparr>"

definition mesh0 :: mesh where
  "mesh0 = \<lparr>mMeshNodes = [], mMeshTriangles = [], mMeshVelocities = Some []\<rparr>"

definition domain0 :: FluidDomainSettings where
  "domain0 = \<lparr>active_fields = 5, res = [32, 16, 8], dx = 0x3D000000, dt = 0x3F800000,
              p0 = [0, 0, 0], p1 = [0x3F800000, 0x3F000000, 0x3E800000],
              dp0 = [0, 0, 0], shift = [1, 0, 0], obj_shift_f = [0, 0, 0],
              obmat = [0x3F800000, 0, 0, 0, 0, 0x3F800000, 0, 0, 0, 0, 0x3F800000, 0,
                       0, 0, 0, 0x3F800000],
              base_res = [32, 16, 8], res_min = [0, 0, 0], res_max = [32, 16, 8],
              active_color = [0x3F800000, 0x3F800000, 0x3F800000], total_cells = 4096\<rparr>"

definition domain1 :: FluidDomainSettings where
  "domain1 = \<lparr>active_fields = 0, res = [1, 1, 1], dx = 0, dt = 0x40000000,
              p0 = [0, 0, 0], p1 = [0, 0, 0], dp0 = [0, 0, 0], shift = [0, 0, 0],
              obj_shift_f = [0, 0, 0],
              obmat = [0, 0, 0, 0, 0, 0, 0, 0, 0, 0, 0, 0, 0, 0, 0, 0],
              base_res = [1, 1, 1], res_min = [0, 0, 0], res_max = [1, 1, 1],
              active_color = [0, 0, 0], total_cells = 1\<rparr>"

section \<open>Properties of the substitution\<close>

declare parseLine_loop.simps [simp del]

lemma size_t_of_int_nonneg: "0 \<le> i \<Longrightarrow> i < 2 ^ 64 \<Longrightarrow> size_t_of_int i = nat i"
  by (simp add: size_t_of_int_def)

lemma substr_exact:
  "0 \<le> p \<Longrightarrow> 0 \<le> c \<Longrightarrow> p < 2 ^ 64 \<Longrightarrow> c < 2 ^ 64 \<Longrightarrow> nat p \<le> length s \<Longrightarrow>
   substr s p c = Some (take (nat c) (drop (nat p) s))"
  by (simp add: substr_def size_t_of_int_nonneg)

text \<open>Positions that hold no delimiter leave the loop state as it is.\<close>

lemma parseLine_loop_skip:
  assumes "\<forall>k. nat i \<le> k \<and> k < nat j \<longrightarrow> line ! k \<noteq> CHR ''$''"
    and "0 \<le> i" and "i \<le> j" and "nat j \<le> length line"
  shows "parseLine_loop gv line i sd ed rv acc err = parseLine_loop gv line j sd ed rv acc err"
  using assms
proof (induction "nat (j - i)" arbitrary: i)
  case 0
  then show ?case by simp
next
  case (Suc n)
  from Suc.hyps(2) have lt: "i < j" by simp
  with Suc.prems(2) have "nat i \<le> nat i \<and> nat i < nat j" by simp
  with Suc.prems(1) have nd: "line ! nat i \<noteq> CHR ''$''" by blast
  have "parseLine_loop gv line i sd ed rv acc err
        = parseLine_loop gv line (i + 1) sd ed rv acc err"
    using lt nd Suc.prems by (subst parseLine_loop.simps) auto
  also have "\<dots> = parseLine_loop gv line j sd ed rv acc err"
    using Suc.hyps Suc.prems lt by (intro Suc.hyps(1)) auto
  finally show ?case .
qed

lemma parseLine_loop_end:
  "nat j = length line \<Longrightarrow> 0 \<le> j \<Longrightarrow>
   parseLine_loop gv line j sd ed rv acc err = Some (acc, ed, err)"
  by (subst parseLine_loop.simps) auto

lemma getRealValue_unknown:
  "name \<noteq> ''ID'' \<Longrightarrow> name \<notin> set recognized_keys \<Longrightarrow>
   getRealValue streamed mCurrentID name (Some m)
   = ([], [''Fluid Error -- Unknown option: '' @ name])"
  by (simp add: getRealValue_def)

text \<open>The loop on a line with a prefix before it, started behind the prefix.\<close>

lemma parseLine_loop_shift:
  assumes "0 \<le> i" and "- 1 \<le> ed" and "ed < i"
    and "rv \<longrightarrow> sdL = int (length pfx) + sdR \<and> 0 \<le> sdR \<and> sdR \<le> i"
    and "length (pfx @ rest) < 2 ^ 31"
  shows "parseLine_loop gv (pfx @ rest) (int (length pfx) + i) sdL (int (length pfx) + ed) rv
           (a0 @ acc) (e0 @ err)
         = map_option (\<lambda>(r, e, er). (a0 @ r, int (length pfx) + e, e0 @ er))
             (parseLine_loop gv rest i sdR ed rv acc err)"
  using assms
proof (induction "nat (int (length rest) - i)" arbitrary: i sdL sdR ed rv acc err)
  case 0
  then have "\<not> nat i < length rest" by simp
  moreover from this have "\<not> nat (int (length pfx) + i) < length (pfx @ rest)"
    using "0.prems"(1) by (simp add: nat_add_distrib)
  ultimately show ?case
    by (subst parseLine_loop.simps, subst (2) parseLine_loop.simps) simp
next
  case (Suc k)
  let ?n = "int (length pfx)"
  let ?line = "pfx @ rest"
  have i: "nat i < length rest" "0 \<le> i" using Suc.hyps(2) Suc.prems(1) by simp_all
  have iL: "0 \<le> ?n + i" "nat (?n + i) < length ?line"
    using i by (simp_all add: nat_add_distrib)
  have ch: "?line ! nat (?n + i) = rest ! nat i"
    using i by (simp add: nat_add_distrib nth_append)
  have big: "?n + i + 1 < 2 ^ 64"
  proof -
    have "?n + i + 1 \<le> int (length ?line)" using i by simp
    also have "\<dots> < 2 ^ 31" using Suc.prems(5) by simp
    finally show ?thesis by simp
  qed
  have sub: "substr ?line (?n + p) c = substr rest p c" if "0 \<le> p" "p \<le> i + 1" for p c
  proof -
    have pL: "size_t_of_int (?n + p) = length pfx + nat p"
      using that big by (simp add: size_t_of_int_def nat_add_distrib)
    have pR: "size_t_of_int p = nat p"
      using that big by (simp add: size_t_of_int_def)
    show ?thesis by (simp add: substr_def pL pR)
  qed
  have k: "k = nat (int (length rest) - (i + 1))" using Suc.hyps(2) by simp
  show ?case
  proof (cases "rest ! nat i = CHR ''$''")
    case False
    have "parseLine_loop gv ?line (?n + i) sdL (?n + ed) rv (a0 @ acc) (e0 @ err)
          = parseLine_loop gv ?line (?n + (i + 1)) sdL (?n + ed) rv (a0 @ acc) (e0 @ err)"
      using iL ch False by (subst parseLine_loop.simps) (simp add: add.assoc)
    also have "\<dots> = map_option (\<lambda>(r, e, er). (a0 @ r, ?n + e, e0 @ er))
             (parseLine_loop gv rest (i + 1) sdR ed rv acc err)"
      using k Suc.prems by (intro Suc.hyps(1)) auto
    also have "parseLine_loop gv rest (i + 1) sdR ed rv acc err
               = parseLine_loop gv rest i sdR ed rv acc err"
      using i False by (subst (2) parseLine_loop.simps) simp
    finally show ?thesis .
  next
    case True
    show ?thesis
    proof (cases rv)
      case False
      have s: "substr ?line (?n + ed + 1) (?n + i - (?n + ed) - 1) = substr rest (ed + 1) (i - ed - 1)"
        using sub [of "ed + 1" "i - ed - 1"] Suc.prems(2,3) by (simp add: add.assoc)
      show ?thesis
      proof (cases "substr rest (ed + 1) (i - ed - 1)")
        case None
        then show ?thesis
          using iL i ch True False s
          by (subst parseLine_loop.simps, subst (2) parseLine_loop.simps) simp
      next
        case (Some t)
        have "parseLine_loop gv ?line (?n + i) sdL (?n + ed) rv (a0 @ acc) (e0 @ err)
              = parseLine_loop gv ?line (?n + (i + 1)) (?n + (i + 1)) (?n + ed) True
                  (a0 @ (acc @ t)) (e0 @ err)"
          using iL ch True False s Some
          by (subst parseLine_loop.simps) (simp add: add.assoc)
        also have "\<dots> = map_option (\<lambda>(r, e, er). (a0 @ r, ?n + e, e0 @ er))
             (parseLine_loop gv rest (i + 1) (i + 1) ed True (acc @ t) err)"
          using k Suc.prems by (intro Suc.hyps(1)) auto
        also have "parseLine_loop gv rest (i + 1) (i + 1) ed True (acc @ t) err
                   = parseLine_loop gv rest i sdR ed rv acc err"
          using i True False Some by (subst (2) parseLine_loop.simps) simp
        finally show ?thesis .
      qed
    next
      case rvT: True
      then have sd: "sdL = ?n + sdR" "0 \<le> sdR" "sdR \<le> i" using Suc.prems(4) by simp_all
      have s: "substr ?line sdL (?n + i - sdL) = substr rest sdR (i - sdR)"
        using sub [of sdR "i - sdR"] sd by simp
      show ?thesis
      proof (cases "substr rest sdR (i - sdR)")
        case None
        then show ?thesis
          using iL i ch True rvT s
          by (subst parseLine_loop.simps, subst (2) parseLine_loop.simps) simp
      next
        case (Some name)
        have "parseLine_loop gv ?line (?n + i) sdL (?n + ed) rv (a0 @ acc) (e0 @ err)
              = parseLine_loop gv ?line (?n + (i + 1)) sdL (?n + i) False
                  (a0 @ (acc @ fst (gv name))) (e0 @ (err @ snd (gv name)))"
          using iL ch True rvT s Some
          by (subst parseLine_loop.simps) (simp add: add.assoc)
        also have "\<dots> = map_option (\<lambda>(r, e, er). (a0 @ r, ?n + e, e0 @ er))
             (parseLine_loop gv rest (i + 1) sdR i False (acc @ fst (gv name))
                (err @ snd (gv name)))"
          using k Suc.prems by (intro Suc.hyps(1)) auto
        also have "parseLine_loop gv rest (i + 1) sdR i False (acc @ fst (gv name))
                (err @ snd (gv name))
                   = parseLine_loop gv rest i sdR ed rv acc err"
          using i True rvT Some by (subst (2) parseLine_loop.simps) simp
        finally show ?thesis .
      qed
    qed
  qed
qed

lemma parseLine_loop_end_del:
  assumes "parseLine_loop gv line i sd ed rv acc err = Some (r, e, er)"
    and "0 \<le> i" and "- 1 \<le> ed" and "ed < i"
  shows "- 1 \<le> e \<and> e < max i (int (length line))"
  using assms
proof (induction "nat (int (length line) - i)" arbitrary: i sd ed rv acc err)
  case 0
  then have "\<not> nat i < length line" by simp
  then have "parseLine_loop gv line i sd ed rv acc err = Some (acc, ed, err)"
    by (subst parseLine_loop.simps) simp
  then show ?case using "0.prems" by simp
next
  case (Suc k)
  have i: "nat i < length line" "0 \<le> i" using Suc.hyps(2) Suc.prems(2) by simp_all
  have k: "k = nat (int (length line) - (i + 1))" using Suc.hyps(2) by simp
  have mx: "max (i + 1) (int (length line)) = max i (int (length line))" using i by simp
  from Suc.prems(1) consider
      (a) sd' rv' acc' err' where
        "parseLine_loop gv line (i + 1) sd' ed rv' acc' err' = Some (r, e, er)"
    | (b) sd' rv' acc' err' where
        "parseLine_loop gv line (i + 1) sd' i rv' acc' err' = Some (r, e, er)"
    using i by (subst (asm) parseLine_loop.simps) (auto split: if_splits option.splits)
  then show ?case
  proof cases
    case a
    then have "- 1 \<le> e \<and> e < max (i + 1) (int (length line))"
      using k Suc.prems by (intro Suc.hyps(1) [of "i + 1" sd' ed rv' acc' err']) auto
    then show ?thesis using mx by simp
  next
    case b
    then have "- 1 \<le> e \<and> e < max (i + 1) (int (length line))"
      using k Suc.prems by (intro Suc.hyps(1) [of "i + 1" sd' i rv' acc' err']) auto
    then show ?thesis using mx by simp
  qed
qed

text \<open>Within the range of \<open>int\<close>, \<open>substr\<close> does not throw in the loop.\<close>

lemma parseLine_loop_total:
  assumes "0 \<le> i" and "- 1 \<le> ed" and "ed < i" and "rv \<longrightarrow> 0 \<le> sd \<and> sd \<le> i"
    and "length line < 2 ^ 31"
  shows "\<exists>r e er. parseLine_loop gv line i sd ed rv acc err = Some (r, e, er)"
  using assms
proof (induction "nat (int (length line) - i)" arbitrary: i sd ed rv acc err)
  case 0
  then have "\<not> nat i < length line" by simp
  then show ?case by (subst parseLine_loop.simps) simp
next
  case (Suc k)
  have i: "nat i < length line" "0 \<le> i" using Suc.hyps(2) Suc.prems(1) by simp_all
  have k: "k = nat (int (length line) - (i + 1))" using Suc.hyps(2) by simp
  have ok: "substr line p c \<noteq> None" if "0 \<le> p" "p \<le> i" for p c
  proof -
    have "p < 2 ^ 64"
    proof -
      have "p < int (length line)" using that i by simp
      also have "\<dots> < 2 ^ 31" using Suc.prems(5) by simp
      finally show ?thesis by simp
    qed
    then have "size_t_of_int p = nat p" using that by (simp add: size_t_of_int_def)
    then show ?thesis using that i by (simp add: substr_def)
  qed
  show ?case
  proof (cases "line ! nat i = CHR ''$''")
    case False
    have "\<exists>r e er. parseLine_loop gv line (i + 1) sd ed rv acc err = Some (r, e, er)"
      using k Suc.prems by (intro Suc.hyps(1)) auto
    then show ?thesis using i False by (subst parseLine_loop.simps) simp
  next
    case True
    show ?thesis
    proof (cases rv)
      case False
      obtain t where t: "substr line (ed + 1) (i - ed - 1) = Some t"
        using ok [of "ed + 1" "i - ed - 1"] Suc.prems(2,3) by auto
      have "\<exists>r e er. parseLine_loop gv line (i + 1) (i + 1) ed True (acc @ t) err
                       = Some (r, e, er)"
        using k Suc.prems by (intro Suc.hyps(1)) auto
      then show ?thesis using i True False t by (subst parseLine_loop.simps) simp
    next
      case rvT: True
      obtain name where nm: "substr line sd (i - sd) = Some name"
        using ok [of sd "i - sd"] Suc.prems(4) rvT by auto
      have "\<exists>r e er. parseLine_loop gv line (i + 1) sd i False (acc @ fst (gv name))
                         (err @ snd (gv name)) = Some (r, e, er)"
        using k Suc.prems by (intro Suc.hyps(1)) auto
      then show ?thesis using i True rvT nm by (subst parseLine_loop.simps) simp
    qed
  qed
qed

text \<open>\<open>parseLine\<close> returns: for a line within the range of \<open>int\<close> nothing throws.\<close>

lemma parseLine_total:
  assumes "length line < 2 ^ 31"
  shows "\<exists>r er. parseLine streamed mCurrentID line mmd = Some (r, er)"
proof (cases "line = []")
  case True
  then show ?thesis by (simp add: parseLine_def)
next
  case False
  let ?gv = "\<lambda>name. getRealValue streamed mCurrentID name mmd"
  obtain r e er where loop: "parseLine_loop ?gv line 0 0 (- 1) False [] [] = Some (r, e, er)"
    using parseLine_loop_total [of 0 "- 1" False 0 line ?gv "[]" "[]"] assms by auto
  then have e: "- 1 \<le> e \<and> e < max 0 (int (length line))"
    by (rule parseLine_loop_end_del) auto
  have "e + 1 < 2 ^ 64"
  proof -
    have "e + 1 \<le> int (length line)" using e by simp
    also have "\<dots> < 2 ^ 31" using assms by simp
    finally show ?thesis by simp
  qed
  then have "size_t_of_int (e + 1) = nat (e + 1)" using e by (simp add: size_t_of_int_def)
  moreover have "nat (e + 1) \<le> length line" using e by arith
  ultimately have "substr line (e + 1) (int (length line) - e) \<noteq> None"
    by (simp add: substr_def)
  then show ?thesis using loop False by (auto simp add: parseLine_def)
qed

lemma substr_append_shift:
  assumes "0 \<le> p" and "int (length pfx) + p < 2 ^ 64"
  shows "substr (pfx @ rest) (int (length pfx) + p) c = substr rest p c"
proof -
  have pL: "size_t_of_int (int (length pfx) + p) = length pfx + nat p"
    using assms by (simp add: size_t_of_int_def nat_add_distrib)
  have pR: "size_t_of_int p = nat p"
    using assms by (simp add: size_t_of_int_def)
  show ?thesis by (simp add: substr_def pL pR)
qed

text \<open>The loop up to the end of the first variable of a line.\<close>

lemma parseLine_loop_first_variable:
  assumes pre: "CHR ''$'' \<notin> set pre" and nm: "CHR ''$'' \<notin> set name"
    and len: "length (pre @ ''$'' @ name @ ''$'' @ post) < 2 ^ 31"
  shows "parseLine_loop gv (pre @ ''$'' @ name @ ''$'' @ post) 0 0 (- 1) False [] []
         = parseLine_loop gv (pre @ ''$'' @ name @ ''$'' @ post)
             (int (length pre) + 1 + int (length name) + 1)
             (int (length pre) + 1) (int (length pre) + 1 + int (length name)) False
             (pre @ fst (gv name)) (snd (gv name))"
proof -
  let ?line = "pre @ ''$'' @ name @ ''$'' @ post"
  let ?p = "int (length pre)"
  let ?q = "int (length pre) + 1 + int (length name)"
  have s1: "parseLine_loop gv ?line 0 0 (- 1) False [] []
            = parseLine_loop gv ?line ?p 0 (- 1) False [] []"
    using pre by (intro parseLine_loop_skip) (auto simp: nth_append in_set_conv_nth)
  have atp: "?line ! nat ?p = CHR ''$''" by (simp add: nth_append)
  have sub1: "substr ?line (- 1 + 1) (?p - (- 1) - 1) = Some pre"
    using len by (subst substr_exact) auto
  have s2: "parseLine_loop gv ?line ?p 0 (- 1) False [] []
            = parseLine_loop gv ?line (?p + 1) (?p + 1) (- 1) True pre []"
    using atp sub1 by (subst parseLine_loop.simps) simp
  have s3: "parseLine_loop gv ?line (?p + 1) (?p + 1) (- 1) True pre []
            = parseLine_loop gv ?line ?q (?p + 1) (- 1) True pre []"
  proof (intro parseLine_loop_skip allI impI)
    fix k assume k: "nat (?p + 1) \<le> k \<and> k < nat ?q"
    then have "?line ! k = name ! (k - length pre - 1)"
      by (auto simp: nth_append nat_add_distrib)
    moreover have "k - length pre - 1 < length name" using k by (auto simp: nat_add_distrib)
    ultimately show "?line ! k \<noteq> CHR ''$''" using nm by (metis nth_mem)
  qed auto
  have atq: "?line ! nat ?q = CHR ''$''" by (simp add: nth_append nat_add_distrib)
  have sub2: "substr ?line (?p + 1) (?q - (?p + 1)) = Some name"
    using len by (subst substr_exact) (auto simp: nat_add_distrib)
  have s4: "parseLine_loop gv ?line ?q (?p + 1) (- 1) True pre []
            = parseLine_loop gv ?line (?q + 1) (?p + 1) ?q False (pre @ fst (gv name))
                (snd (gv name))"
    using atq sub2 by (subst parseLine_loop.simps) (simp add: nat_add_distrib)
  show ?thesis unfolding s1 s2 s3 s4 ..
qed

text \<open>
  A line that starts with text and a variable: the text, the value of the variable, and
  what \<open>parseLine\<close> makes of the rest of the line.
\<close>

lemma parseLine_first_variable:
  assumes pre: "CHR ''$'' \<notin> set pre" and nm: "CHR ''$'' \<notin> set name"
    and len: "length (pre @ ''$'' @ name @ ''$'' @ post) < 2 ^ 31"
  shows "parseLine streamed mCurrentID (pre @ ''$'' @ name @ ''$'' @ post) mmd
         = map_option (\<lambda>(r, er). (pre @ fst (getRealValue streamed mCurrentID name mmd) @ r,
                                  snd (getRealValue streamed mCurrentID name mmd) @ er))
             (parseLine streamed mCurrentID post mmd)"
proof -
  let ?gv = "\<lambda>name. getRealValue streamed mCurrentID name mmd"
  let ?pfx = "pre @ ''$'' @ name @ ''$''"
  let ?line = "pre @ ''$'' @ name @ ''$'' @ post"
  let ?n = "int (length ?pfx)"
  have line: "?line = ?pfx @ post" by simp
  have lenp: "length (?pfx @ post) < 2 ^ 31" using len by simp
  have first: "parseLine_loop ?gv ?line 0 0 (- 1) False [] []
     = parseLine_loop ?gv (?pfx @ post) (?n + 0) (int (length pre) + 1) (?n + (- 1)) False
         ((pre @ fst (?gv name)) @ []) (snd (?gv name) @ [])"
    unfolding parseLine_loop_first_variable [OF pre nm len, of ?gv]
    by (simp add: add.commute add.left_commute)
  also have "\<dots> = map_option (\<lambda>(r, e, er). ((pre @ fst (?gv name)) @ r, ?n + e,
                                            snd (?gv name) @ er))
             (parseLine_loop ?gv post 0 0 (- 1) False [] [])"
    using lenp by (intro parseLine_loop_shift) auto
  finally have loop: "parseLine_loop ?gv ?line 0 0 (- 1) False [] []
     = map_option (\<lambda>(r, e, er). ((pre @ fst (?gv name)) @ r, ?n + e, snd (?gv name) @ er))
         (parseLine_loop ?gv post 0 0 (- 1) False [] [])" .
  have lpost: "length post < 2 ^ 31" using len by simp
  obtain r e er where lp: "parseLine_loop ?gv post 0 0 (- 1) False [] [] = Some (r, e, er)"
    using parseLine_loop_total [of 0 "- 1" False 0 post ?gv "[]" "[]"] lpost by auto
  then have e: "- 1 \<le> e \<and> e < max 0 (int (length post))"
    by (rule parseLine_loop_end_del) auto
  have big: "?n + e + 1 < 2 ^ 64"
  proof -
    have "?n + e + 1 \<le> int (length ?line)" using e by simp
    also have "\<dots> < 2 ^ 31" using len by simp
    finally show ?thesis by simp
  qed
  have sub: "substr ?line (?n + e + 1) (int (length ?line) - (?n + e))
             = substr post (e + 1) (int (length post) - e)"
  proof -
    have "substr (?pfx @ post) (int (length ?pfx) + (e + 1)) (int (length post) - e)
          = substr post (e + 1) (int (length post) - e)"
      using e big by (intro substr_append_shift) auto
    moreover have "int (length ?line) - (?n + e) = int (length post) - e" by simp
    moreover have "?n + e + 1 = int (length ?pfx) + (e + 1)" by simp
    ultimately show ?thesis unfolding line by (simp only:)
  qed
  define v where "v = ?gv name"
  define nn where "nn = ?n"
  have ne: "length ?line \<noteq> 0" by simp
  have loop': "parseLine_loop ?gv ?line 0 0 (- 1) False [] []
               = Some ((pre @ fst v) @ r, nn + e, snd v @ er)"
    unfolding loop lp v_def nn_def by simp
  have sub': "substr ?line (nn + e + 1) (int (length ?line) - (nn + e))
              = substr post (e + 1) (int (length post) - e)"
    unfolding nn_def by (rule sub)
  have L: "parseLine streamed mCurrentID ?line mmd
           = (case substr post (e + 1) (int (length post) - e) of
                None \<Rightarrow> None | Some t \<Rightarrow> Some (((pre @ fst v) @ r) @ t, snd v @ er))"
    unfolding parseLine_def loop' using ne by (simp only: if_False option.case prod.case sub')
  show ?thesis
  proof (cases "post = []")
    case True
    then have e1: "e = - 1" using e by simp
    have r: "r = []" "er = []"
      using lp True by (subst (asm) parseLine_loop.simps, simp)+
    have "substr post (e + 1) (int (length post) - e) = Some []"
      unfolding True e1 by (simp add: substr_def size_t_of_int_def)
    then have "parseLine streamed mCurrentID ?line mmd = Some (pre @ fst v, snd v)"
      unfolding L r by simp
    moreover have "parseLine streamed mCurrentID post mmd = Some ([], [])"
      unfolding True by (simp add: parseLine_def)
    ultimately show ?thesis unfolding v_def by simp
  next
    case False
    then have R: "parseLine streamed mCurrentID post mmd
           = (case substr post (e + 1) (int (length post) - e) of
                None \<Rightarrow> None | Some t \<Rightarrow> Some (r @ t, er))"
      unfolding parseLine_def lp by simp
    show ?thesis unfolding L R v_def by (simp split: option.splits)
  qed
qed

text \<open>
  C9. A line without the delimiter \<open>$\<close> is returned unchanged by \<open>parseLine\<close>, whatever
  the modifier data is (null or not), and nothing is written to \<open>std::cerr\<close>. The line is
  shorter than \<open>2^31\<close> characters, the range of the \<open>int\<close> that indexes it.
\<close>

theorem parseLine_no_delimiter_identity:
  assumes "CHR ''$'' \<notin> set line" and "length line < 2 ^ 31"
  shows "parseLine streamed mCurrentID line mmd = Some (line, [])"
proof (cases "line = []")
  case True
  then show ?thesis by (simp add: parseLine_def)
next
  case False
  let ?gv = "\<lambda>name. getRealValue streamed mCurrentID name mmd"
  have "parseLine_loop ?gv line 0 0 (- 1) False [] []
        = parseLine_loop ?gv line (int (length line)) 0 (- 1) False [] []"
    using assms by (intro parseLine_loop_skip) (auto simp: in_set_conv_nth)
  also have "\<dots> = Some ([], - 1, [])"
    by (rule parseLine_loop_end) auto
  finally have loop: "parseLine_loop ?gv line 0 0 (- 1) False [] [] = Some ([], - 1, [])" .
  have "size_t_of_int (int (length line) + 1) = length line + 1"
    using assms(2) by (simp add: size_t_of_int_def nat_add_distrib)
  then have "substr line (- 1 + 1) (int (length line) - (- 1)) = Some line"
    by (simp add: substr_def size_t_of_int_def)
  with loop False show ?thesis by (simp add: parseLine_def)
qed

theorem parseLine_no_delimiter_identity_witness:
  "CHR ''$'' \<notin> set ''import os'' \<and> length ''import os'' < (2::nat) ^ 31
   \<and> parseLine (\<lambda>k (m::unit). (k, [])) 1 ''import os'' None = Some (''import os'', [])"
  using parseLine_no_delimiter_identity [of "''import os''" "\<lambda>k (m::unit). (k, [])" 1 None]
  by simp

text \<open>
  C8. For a name that is neither \<open>ID\<close> nor one of the recognised keys, and modifier data
  that is not null, \<open>getRealValue\<close> writes the diagnostic to \<open>std::cerr\<close> and returns the
  empty string; \<open>parseLine\<close> then replaces the occurrence \<open>$NAME$\<close> by nothing and does
  not fail: the text before it is joined with what \<open>parseLine\<close> returns for the rest of
  the line, which may hold further variables.
\<close>

theorem parseLine_unknown_key_empty:
  assumes nid: "name \<noteq> ''ID''" and unk: "name \<notin> set recognized_keys"
    and pre: "CHR ''$'' \<notin> set pre" and nm: "CHR ''$'' \<notin> set name"
    and len: "length (pre @ ''$'' @ name @ ''$'' @ post) < 2 ^ 31"
  shows "getRealValue streamed mCurrentID name (Some m)
           = ([], [''Fluid Error -- Unknown option: '' @ name])
         \<and> (\<exists>r er. parseLine streamed mCurrentID post (Some m) = Some (r, er)
              \<and> parseLine streamed mCurrentID (pre @ ''$'' @ name @ ''$'' @ post) (Some m)
                = Some (pre @ r, (''Fluid Error -- Unknown option: '' @ name) # er))"
proof
  show gv: "getRealValue streamed mCurrentID name (Some m)
           = ([], [''Fluid Error -- Unknown option: '' @ name])"
    using nid unk by (rule getRealValue_unknown)
  have "length post < 2 ^ 31" using len by simp
  then obtain r er where p: "parseLine streamed mCurrentID post (Some m) = Some (r, er)"
    using parseLine_total by blast
  have "parseLine streamed mCurrentID (pre @ ''$'' @ name @ ''$'' @ post) (Some m)
        = Some (pre @ r, (''Fluid Error -- Unknown option: '' @ name) # er)"
    unfolding parseLine_first_variable [OF pre nm len] gv p by simp
  with p show "\<exists>r er. parseLine streamed mCurrentID post (Some m) = Some (r, er)
              \<and> parseLine streamed mCurrentID (pre @ ''$'' @ name @ ''$'' @ post) (Some m)
                = Some (pre @ r, (''Fluid Error -- Unknown option: '' @ name) # er)"
    by blast
qed

theorem parseLine_unknown_key_empty_witness:
  "''FOO'' \<noteq> ''ID'' \<and> ''FOO'' \<notin> set recognized_keys \<and> CHR ''$'' \<notin> set ''x = ''
   \<and> CHR ''$'' \<notin> set ''FOO''
   \<and> length (''x = '' @ ''$'' @ ''FOO'' @ ''$'' @ '' + $BAR$'') < (2::nat) ^ 31
   \<and> getRealValue (\<lambda>k (m::unit). (k, [])) 1 ''FOO'' (Some ())
       = ([], [''Fluid Error -- Unknown option: FOO''])
   \<and> parseLine (\<lambda>k (m::unit). (k, [])) 1 '' + $BAR$'' (Some ())
       = Some ('' + '', [''Fluid Error -- Unknown option: BAR''])
   \<and> parseLine (\<lambda>k (m::unit). (k, [])) 1 ''x = $FOO$ + $BAR$'' (Some ())
       = Some (''x =  + '', [''Fluid Error -- Unknown option: FOO'',
                            ''Fluid Error -- Unknown option: BAR''])"
  using parseLine_unknown_key_empty
          [of "''FOO''" "''x = ''" "'' + $BAR$''" "\<lambda>k (m::unit). (k, [])" 1 "()"]
  by (simp add: recognized_keys_def parseLine_def parseLine_loop.simps substr_def
        size_t_of_int_def getRealValue_def)

section \<open>Properties of the readers\<close>

declare chunk_loop.simps [simp del]

declare bit_length.simps [simp del]

subsection \<open>Bytes, words and magics\<close>

lemma le32_enc32: "le32 (enc32 w) = w"
  unfolding le32_def enc32_def
  apply (simp, rule bit_word_eqI)
  apply (auto simp add: bit_simps)
  apply (case_tac "24 \<le> n"; simp)
  done

lemma length_enc32 [simp]: "length (enc32 w) = 4"
  by (simp add: enc32_def)

lemma length_mem32 [simp]: "length (mem32 ws) = 4 * length ws"
  by (induction ws) (simp_all add: mem32_def)

lemma mem32_Cons: "mem32 (w # ws) = enc32 w @ mem32 ws"
  by (simp add: mem32_def)

lemma word_at_mem32: "i < length ws \<Longrightarrow> word_at (mem32 ws @ rest) i = ws ! i"
proof (induction ws arbitrary: i)
  case Nil
  then show ?case by simp
next
  case (Cons w ws)
  show ?case
  proof (cases i)
    case 0
    have "take 4 (enc32 w @ mem32 ws @ rest) = enc32 w" by simp
    then show ?thesis using 0 by (simp add: word_at_def mem32_Cons le32_enc32)
  next
    case (Suc j)
    then have "j < length ws" using Cons.prems by simp
    then have "word_at (mem32 ws @ rest) j = ws ! j" by (rule Cons.IH)
    moreover have "drop (4 * Suc j) (enc32 w @ mem32 ws @ rest) = drop (4 * j) (mem32 ws @ rest)"
      by simp
    ultimately show ?thesis using Suc by (simp add: word_at_def mem32_Cons)
  qed
qed

lemma map_word_at_mem32: "map (word_at (mem32 ws @ rest)) [0..<length ws] = ws"
  by (rule nth_equalityI) (simp_all add: word_at_mem32)

lemma c_string_append_zero: "c_string (m @ 0 # z) = takeWhile (\<lambda>b. b \<noteq> 0) m"
  by (induction m) (simp_all add: c_string_def)

lemma drop_zeros5:
  "length m \<le> 4 \<Longrightarrow> \<exists>z. drop (length m) [0, 0, 0, 0, 0 :: byte] = 0 # z"
  by (cases m rule: list.exhaust; simp; cases "tl m"; simp; cases "tl (tl m)"; simp;
      cases "tl (tl (tl m))"; simp; cases "tl (tl (tl (tl m)))"; simp)

text \<open>The array \<open>file_magic\<close> after the read of four bytes compares equal to a magic of four
  non-zero bytes exactly when the file starts with these four bytes.\<close>

lemma magic_is_iff:
  assumes "length s = 4" and "0 \<notin> set (bytes_of_string s)"
  shows "magic_is (take 4 d @ drop (length (take 4 d)) [0, 0, 0, 0, 0]) s
         \<longleftrightarrow> take 4 d = bytes_of_string s"
proof -
  let ?m = "take 4 d"
  obtain z where z: "drop (length ?m) [0, 0, 0, 0, 0 :: byte] = 0 # z"
    using drop_zeros5 [of ?m] by auto
  have c: "c_string (?m @ drop (length ?m) [0, 0, 0, 0, 0]) = takeWhile (\<lambda>b. b \<noteq> 0) ?m"
    unfolding z by (rule c_string_append_zero)
  show ?thesis
  proof
    assume "magic_is (?m @ drop (length ?m) [0, 0, 0, 0, 0]) s"
    then have eq: "takeWhile (\<lambda>b. b \<noteq> 0) ?m = bytes_of_string s"
      using c by (simp add: magic_is_def)
    then have "length (takeWhile (\<lambda>b. b \<noteq> 0) ?m) = 4"
      using assms(1) by (simp add: bytes_of_string_def)
    moreover have "length (takeWhile (\<lambda>b. b \<noteq> 0) ?m) \<le> length ?m"
      by (rule length_takeWhile_le)
    moreover have "length ?m \<le> 4" by simp
    ultimately have "length (takeWhile (\<lambda>b. b \<noteq> 0) ?m) = length ?m" by linarith
    then have "takeWhile (\<lambda>b. b \<noteq> 0) ?m = ?m"
      by (metis takeWhile_eq_take take_all order_refl)
    with eq show "?m = bytes_of_string s" by simp
  next
    assume m: "?m = bytes_of_string s"
    then have "\<forall>b \<in> set ?m. b \<noteq> 0" using assms(2) by auto
    then have "takeWhile (\<lambda>b. b \<noteq> 0) ?m = ?m" by simp
    with c m show "magic_is (?m @ drop (length ?m) [0, 0, 0, 0, 0]) s"
      by (simp add: magic_is_def)
  qed
qed

lemma bytes_magic [simp]:
  "length ''DDF2'' = 4" "0 \<notin> set (bytes_of_string ''DDF2'')"
  "0 \<notin> set (bytes_of_string ''MNT1'')" "0 \<notin> set (bytes_of_string ''MNT2'')"
  "0 \<notin> set (bytes_of_string ''MNT3'')" "0 \<notin> set (bytes_of_string ''PB01'')"
  "0 \<notin> set (bytes_of_string ''PB02'')" "0 \<notin> set (bytes_of_string ''PD01'')"
  "0 \<notin> set (bytes_of_string ''MB01'')" "0 \<notin> set (bytes_of_string ''MD01'')"
  by (simp_all add: bytes_of_string_def)

lemma word_at_take_append:
  "4 * i + 4 \<le> n \<Longrightarrow> 4 * i + 4 \<le> length xs \<Longrightarrow> word_at (take n xs @ ys) i = word_at xs i"
proof -
  assume a: "4 * i + 4 \<le> n" "4 * i + 4 \<le> length xs"
  have "take 4 (drop (4 * i) (take n xs @ ys)) = take 4 (drop (4 * i) (take n xs))"
    using a by simp
  also have "\<dots> = take 4 (take (n - 4 * i) (drop (4 * i) xs))"
    by (simp add: drop_take)
  also have "\<dots> = take 4 (drop (4 * i) xs)"
    using a by (simp add: min_def)
  finally show ?thesis by (simp add: word_at_def)
qed

lemma gzread_magic:
  "\<exists>fm. gzread gzf [0, 0, 0, 0, 0] 4
          = (int (min (length (gz_data gzf)) 4), fm, gzf\<lparr>gz_data := drop 4 (gz_data gzf)\<rparr>)
        \<and> (\<forall>s. length s = 4 \<longrightarrow> 0 \<notin> set (bytes_of_string s) \<longrightarrow>
               magic_is fm s = (take 4 (gz_data gzf) = bytes_of_string s))"
proof (intro exI conjI allI impI)
  show "gzread gzf [0, 0, 0, 0, 0] 4
     = (int (min (length (gz_data gzf)) 4),
        take 4 (gz_data gzf) @ drop (length (take 4 (gz_data gzf))) [0, 0, 0, 0, 0],
        gzf\<lparr>gz_data := drop 4 (gz_data gzf)\<rparr>)"
    by (simp add: gzread_def)
  show "magic_is (take 4 (gz_data gzf) @ drop (length (take 4 (gz_data gzf))) [0, 0, 0, 0, 0]) s
        = (take 4 (gz_data gzf) = bytes_of_string s)"
    if "length s = 4" "0 \<notin> set (bytes_of_string s)" for s
    using that by (rule magic_is_iff)
qed

lemma take4_magic_length: "take 4 d = bytes_of_string s \<Longrightarrow> length s = 4 \<Longrightarrow> 4 \<le> length d"
proof -
  assume a: "take 4 d = bytes_of_string s" "length s = 4"
  then have "length (take 4 d) = 4" by (simp add: bytes_of_string_def)
  then show ?thesis by simp
qed

lemmas ev = uni_grid_header_def uni_part_header_def uninit0_def solver112_def particles0_def
  mesh0_def bytes_of_string_def enc32_def word_at_def le32_def

subsection \<open>Dense grids\<close>

text \<open>
  C2. When the resolution in the header of a grid file (the three \<open>int\<close>s after the magic)
  differs from the resolution expected by the solver (the noise resolution when \<open>isNoise\<close>
  holds), \<open>updateGridFromUni\<close> returns \<open>false\<close> and the grid is, byte for byte, what it
  was before the call.
\<close>

theorem updateGridFromUni_resolution_mismatch:
  assumes len: "16 \<le> length (gz_data gzf)"
    and mis: "(word_at (drop 4 (gz_data gzf)) 0, word_at (drop 4 (gz_data gzf)) 1,
               word_at (drop 4 (gz_data gzf)) 2)
              \<noteq> (if isNoise then (mResXNoise s, mResYNoise s, mResZNoise s)
                  else (mResX s, mResY s, mResZ s))"
  shows "updateGridFromUni s u (Some gzf) grid isNoise = (False, grid)"
proof -
  have w: "word_at (take 16 (drop 4 (gz_data gzf)) @ ys) i = word_at (drop 4 (gz_data gzf)) i"
    if "i < 3" for i ys
    using that len by (intro word_at_take_append) auto
  show ?thesis
    using mis len
    by (auto simp add: updateGridFromUni_def gzread_def gzread_unused_def Let_def w
             split: if_splits)
qed

theorem updateGridFromUni_resolution_mismatch_witness:
  "updateGridFromUni solver112 uninit0
     (Some \<lparr>gz_data = uni_grid_header ''MNT3'' 1 1 3 @ [1, 2, 3, 4, 5, 6, 7, 8, 9, 10, 11, 12],
            gz_close_ok = True\<rparr>)
     [0, 0, 0, 0, 0, 0, 0, 0] False
   = (False, [0, 0, 0, 0, 0, 0, 0, 0])"
  using updateGridFromUni_resolution_mismatch
          [of "\<lparr>gz_data = uni_grid_header ''MNT3'' 1 1 3 @ [1, 2, 3, 4, 5, 6, 7, 8, 9, 10, 11, 12],
                gz_close_ok = True\<rparr>" False solver112 uninit0 "[0, 0, 0, 0, 0, 0, 0, 0]"]
  by (simp add: ev)

text \<open>
  C4. A file that starts with a deprecated magic is rejected: \<open>updateGridFromUni\<close> returns
  \<open>false\<close> for \<open>DDF2\<close>, \<open>MNT1\<close> and \<open>MNT2\<close> and leaves the grid as it was, and
  \<open>updateParticlesFromUni\<close> returns \<open>false\<close> for \<open>PB01\<close> and leaves every particle vector
  as it was; nothing after the magic is read, so the payload is not taken for another format.
\<close>

theorem deprecated_magic_rejected:
  "(take 4 (gz_data gzf) \<in> {bytes_of_string ''DDF2'', bytes_of_string ''MNT1'',
                              bytes_of_string ''MNT2''}
      \<longrightarrow> updateGridFromUni s u (Some gzf) grid isNoise = (False, grid))
   \<and> (take 4 (gz_data gzf) = bytes_of_string ''PB01''
      \<longrightarrow> updateParticlesFromUni u (Some gzf) isSecondarySys isVelData st = Inr (False, st))"
proof -
  obtain fm where gm: "gzread gzf [0, 0, 0, 0, 0] 4
     = (int (min (length (gz_data gzf)) 4), fm, gzf\<lparr>gz_data := drop 4 (gz_data gzf)\<rparr>)"
    and mg0: "\<forall>s. length s = 4 \<longrightarrow> 0 \<notin> set (bytes_of_string s) \<longrightarrow>
           magic_is fm s = (take 4 (gz_data gzf) = bytes_of_string s)"
    using gzread_magic [of gzf] by blast
  note mg = mg0 [rule_format]
  show ?thesis
  proof (intro conjI impI)
    assume "take 4 (gz_data gzf) \<in> {bytes_of_string ''DDF2'', bytes_of_string ''MNT1'',
                              bytes_of_string ''MNT2''}"
    then show "updateGridFromUni s u (Some gzf) grid isNoise = (False, grid)"
      unfolding updateGridFromUni_def option.case gm by (auto simp add: mg)
  next
    assume "take 4 (gz_data gzf) = bytes_of_string ''PB01''"
    then show "updateParticlesFromUni u (Some gzf) isSecondarySys isVelData st = Inr (False, st)"
      unfolding updateParticlesFromUni_def option.case gm by (simp add: mg)
  qed
qed

theorem deprecated_magic_rejected_witness:
  "updateGridFromUni solver112 uninit0
     (Some \<lparr>gz_data = uni_grid_header ''MNT2'' 1 1 2 @ [1, 2, 3, 4, 5, 6, 7, 8],
            gz_close_ok = True\<rparr>)
     [0, 0, 0, 0, 0, 0, 0, 0] False
   = (False, [0, 0, 0, 0, 0, 0, 0, 0])
   \<and> updateParticlesFromUni uninit0
       (Some \<lparr>gz_data = uni_part_header ''PB01'' 1 0 16 @ replicate 16 1, gz_close_ok = True\<rparr>)
       True False particles0
     = Inr (False, particles0)"
  using deprecated_magic_rejected
          [where gzf = "\<lparr>gz_data = uni_grid_header ''MNT2'' 1 1 2 @ [1, 2, 3, 4, 5, 6, 7, 8],
                        gz_close_ok = True\<rparr>"
             and s = solver112 and u = uninit0 and grid = "[0, 0, 0, 0, 0, 0, 0, 0]"
             and isNoise = False]
        deprecated_magic_rejected
          [where gzf = "\<lparr>gz_data = uni_part_header ''PB01'' 1 0 16 @ replicate 16 1,
                        gz_close_ok = True\<rparr>"
             and u = uninit0 and isSecondarySys = True and isVelData = False
             and st = particles0]
  by (simp add: ev)

text \<open>
  C5, as stated, asks that every magic other than \<open>MNT3\<close> makes \<open>updateGridFromUni\<close>
  return \<open>false\<close>. A file with the unknown magic \<open>ABCD\<close>, a matching resolution and a
  successful \<open>gzclose\<close> returns \<open>true\<close>, and no payload is read.
\<close>

theorem updateGridFromUni_unknown_magic_counterexample:
  "updateGridFromUni solver112 uninit0
     (Some \<lparr>gz_data = uni_grid_header ''ABCD'' 1 1 2 @ [1, 2, 3, 4, 5, 6, 7, 8],
            gz_close_ok = True\<rparr>)
     [0, 0, 0, 0, 0, 0, 0, 0] False
   = (True, [0, 0, 0, 0, 0, 0, 0, 0])"
  by (simp add: updateGridFromUni_def gzread_def gzread_unused_def magic_is_def c_string_def ev)

text \<open>
  C5, amended. For a grid file whose header resolution matches the expected one:
  the deprecated magics \<open>DDF2\<close>, \<open>MNT1\<close> and \<open>MNT2\<close> return \<open>false\<close> with the grid
  untouched; the magic \<open>MNT3\<close>, and only it, reads the payload (the bytes after the 292
  bytes of the header) into the grid, and the call returns the status of \<open>gzclose\<close>; any
  other magic reads no payload, leaves the grid untouched and returns the status of
  \<open>gzclose\<close> as well.
\<close>

theorem updateGridFromUni_magic_cases:
  assumes len: "16 \<le> length (gz_data gzf)"
    and dims: "(word_at (drop 4 (gz_data gzf)) 0, word_at (drop 4 (gz_data gzf)) 1,
                word_at (drop 4 (gz_data gzf)) 2)
               = (if isNoise then (mResXNoise s, mResYNoise s, mResZNoise s)
                  else (mResX s, mResY s, mResZ s))"
  shows "updateGridFromUni s u (Some gzf) grid isNoise =
           (if take 4 (gz_data gzf) \<in> {bytes_of_string ''DDF2'', bytes_of_string ''MNT1'',
                                         bytes_of_string ''MNT2''}
            then (False, grid)
            else if take 4 (gz_data gzf) = bytes_of_string ''MNT3''
            then (gz_close_ok gzf,
                  let n = unat (grid_bytes (word_at (drop 4 (gz_data gzf)) 0)
                                  (word_at (drop 4 (gz_data gzf)) 1)
                                  (word_at (drop 4 (gz_data gzf)) 2));
                      payload = take n (drop 292 (gz_data gzf))
                  in if 2 ^ 31 \<le> n then grid else payload @ drop (length payload) grid)
            else (gz_close_ok gzf, grid))"
proof -
  obtain fm where gm: "gzread gzf [0, 0, 0, 0, 0] 4
     = (int (min (length (gz_data gzf)) 4), fm, gzf\<lparr>gz_data := drop 4 (gz_data gzf)\<rparr>)"
    and mg0: "\<forall>s. length s = 4 \<longrightarrow> 0 \<notin> set (bytes_of_string s) \<longrightarrow>
           magic_is fm s = (take 4 (gz_data gzf) = bytes_of_string s)"
    using gzread_magic [of gzf] by blast
  note mg = mg0 [rule_format]
  have w: "word_at (take 16 (drop 4 (gz_data gzf)) @ ys) i = word_at (drop 4 (gz_data gzf)) i"
    if "i < 3" for i ys
    using that len by (intro word_at_take_append) auto
  show ?thesis
    unfolding updateGridFromUni_def option.case gm
    using dims len
    by (simp add: gzread_def gzread_unused_def Let_def w mg split: if_splits)
qed

theorem updateGridFromUni_magic_cases_witness:
  "updateGridFromUni solver112 uninit0
     (Some \<lparr>gz_data = uni_grid_header ''MNT3'' 1 1 2 @ [1, 2, 3, 4, 5, 6, 7, 8],
            gz_close_ok = True\<rparr>)
     [0, 0, 0, 0, 0, 0, 0, 0] False
   = (True, [1, 2, 3, 4, 5, 6, 7, 8])"
  using updateGridFromUni_magic_cases
          [of "\<lparr>gz_data = uni_grid_header ''MNT3'' 1 1 2 @ [1, 2, 3, 4, 5, 6, 7, 8],
                gz_close_ok = True\<rparr>" False solver112 uninit0 "[0, 0, 0, 0, 0, 0, 0, 0]"]
  by (simp add: ev grid_bytes_def)

subsection \<open>Counts of zero\<close>

text \<open>
  C10. A mesh file read by \<open>updateMeshFromUni\<close> whose header gives zero vertices makes the
  call return \<open>false\<close>, with the mesh untouched (where \<open>updateParticlesFromUni\<close> returns
  \<open>true\<close> for zero particles, see C3).
\<close>

theorem updateMeshFromUni_zero_vertices:
  assumes "8 \<le> length (gz_data gzf)" and "word_at (drop 4 (gz_data gzf)) 0 = 0"
  shows "updateMeshFromUni u (Some gzf) st = Inr (False, st)"
proof -
  obtain fm where gm: "gzread gzf [0, 0, 0, 0, 0] 4
     = (int (min (length (gz_data gzf)) 4), fm, gzf\<lparr>gz_data := drop 4 (gz_data gzf)\<rparr>)"
    using gzread_magic [of gzf] by blast
  have "word_at (take 16 (drop 4 (gz_data gzf)) @ ys) 0 = word_at (drop 4 (gz_data gzf)) 0"
    for ys
    using assms(1) by (intro word_at_take_append) auto
  then show ?thesis
    unfolding updateMeshFromUni_def option.case gm
    using assms by (simp add: gzread_def gzread_unused_def Let_def)
qed

theorem updateMeshFromUni_zero_vertices_witness:
  "updateMeshFromUni uninit0
     (Some \<lparr>gz_data = uni_part_header ''MD01'' 0 1 12, gz_close_ok = True\<rparr>) mesh0
   = Inr (False, mesh0)"
  using updateMeshFromUni_zero_vertices
          [of "\<lparr>gz_data = uni_part_header ''MD01'' 0 1 12, gz_close_ok = True\<rparr>" uninit0 mesh0]
  by (simp add: ev)

text \<open>
  C3, as stated, asks that every particle file with zero particles and a magic other than
  \<open>PB01\<close> returns \<open>true\<close>. The check of the header comes first: with element type 0 and
  a record size other than 16 the call returns \<open>false\<close>.
\<close>

theorem updateParticlesFromUni_zero_invalid_header_counterexample:
  "updateParticlesFromUni uninit0
     (Some \<lparr>gz_data = uni_part_header ''PB02'' 0 0 12, gz_close_ok = True\<rparr>)
     True False particles0
   = Inr (False, particles0)"
  by (simp add: updateParticlesFromUni_def gzread_def gzread_unused_def magic_is_def
        c_string_def ev)

text \<open>
  C3, amended. A particle file with zero particles, a magic other than \<open>PB01\<close> and a
  header that passes the check (16 bytes per element, or an element type other than 0)
  makes \<open>updateParticlesFromUni\<close> return \<open>true\<close>, and no particle vector is written.
\<close>

theorem updateParticlesFromUni_zero_particles:
  assumes len: "28 \<le> length (gz_data gzf)"
    and magic: "take 4 (gz_data gzf) \<noteq> bytes_of_string ''PB01''"
    and sanity: "word_at (drop 4 (gz_data gzf)) 5 = 16 \<or> word_at (drop 4 (gz_data gzf)) 4 \<noteq> 0"
    and zero: "word_at (drop 4 (gz_data gzf)) 0 = 0"
  shows "updateParticlesFromUni u (Some gzf) isSecondarySys isVelData st = Inr (True, st)"
proof -
  obtain fm where gm: "gzread gzf [0, 0, 0, 0, 0] 4
     = (int (min (length (gz_data gzf)) 4), fm, gzf\<lparr>gz_data := drop 4 (gz_data gzf)\<rparr>)"
    and mg0: "\<forall>s. length s = 4 \<longrightarrow> 0 \<notin> set (bytes_of_string s) \<longrightarrow>
           magic_is fm s = (take 4 (gz_data gzf) = bytes_of_string s)"
    using gzread_magic [of gzf] by blast
  note mg = mg0 [rule_format]
  have w0: "word_at (take 16 (drop 4 (gz_data gzf)) @ ys) 0 = word_at (drop 4 (gz_data gzf)) 0"
    for ys
    using len by (intro word_at_take_append) auto
  have et: "le32 (take 4 (drop 20 (gz_data gzf)) @ ys) = word_at (drop 4 (gz_data gzf)) 4" for ys
    using len by (simp add: word_at_def le32_def)
  have bpe: "le32 (take 4 (drop 24 (gz_data gzf)) @ ys) = word_at (drop 4 (gz_data gzf)) 5" for ys
    using len by (simp add: word_at_def le32_def)
  show ?thesis
    unfolding updateParticlesFromUni_def option.case gm
    using len magic sanity zero
    by (auto simp add: gzread_def gzread_unused_def Let_def w0 et bpe mg)
qed

theorem updateParticlesFromUni_zero_particles_witness:
  "updateParticlesFromUni uninit0
     (Some \<lparr>gz_data = uni_part_header ''PB02'' 0 0 16, gz_close_ok = True\<rparr>)
     True False particles0
   = Inr (True, particles0)"
  using updateParticlesFromUni_zero_particles
          [of "\<lparr>gz_data = uni_part_header ''PB02'' 0 0 16, gz_close_ok = True\<rparr>"
              uninit0 True False particles0]
  by (simp add: ev)

subsection \<open>The configuration file\<close>

lemma read_array_exact:
  assumes "length ws = n" and "n < 2 ^ 28"
  shows "read_array \<lparr>gz_data = mem32 ws @ rest, gz_close_ok = c\<rparr> old n
         = (ws, \<lparr>gz_data = rest, gz_close_ok = c\<rparr>)"
proof -
  have "\<not> (2::nat) ^ 31 \<le> 4 * n" using assms(2) by simp
  moreover have "map (word_at (mem32 ws @ drop (4 * n) (mem32 old))) [0..<n] = ws"
    using map_word_at_mem32[of ws] assms(1) by simp
  ultimately show ?thesis
    using assms(1) by (simp add: read_array_def gzread_def)
qed

lemma read_scalar_exact:
  "read_scalar \<lparr>gz_data = enc32 w @ rest, gz_close_ok = c\<rparr> old
   = (w, \<lparr>gz_data = rest, gz_close_ok = c\<rparr>)"
  by (simp add: read_scalar_def gzread_def le32_enc32)

lemma gzread_unused_exact:
  "gzread_unused \<lparr>gz_data = enc32 w @ rest, gz_close_ok = c\<rparr> 4 = \<lparr>gz_data = rest, gz_close_ok = c\<rparr>"
  by (simp add: gzread_unused_def gzread_def)

text \<open>
  C7, as stated, asks that \<open>readConfiguration\<close> restores every field that
  \<open>writeConfiguration\<close> wrote. The time step is read and thrown away: after reading the
  file written from \<open>domain0\<close> into \<open>domain1\<close>, the time step is still that of
  \<open>domain1\<close>, not the one written.
\<close>

theorem config_round_trip_dt_counterexample:
  "dt (snd (readConfiguration domain1
         (Some \<lparr>gz_data = the (snd (writeConfiguration (Some True) domain0)),
                gz_close_ok = True\<rparr>)))
   = 0x40000000 \<and> dt domain0 = 0x3F800000"
  by (simp add: readConfiguration_def read_scalar_def read_array_def gzread_unused_def
        gzread_def writeConfiguration_def gzwrite_def mem32_def domain0_def domain1_def
        Let_def)

text \<open>
  C7, amended. \<open>readConfiguration\<close> reads the fields in the order and with the sizes that
  \<open>writeConfiguration\<close> wrote them, and restores each of them except the time step, which
  is read and discarded (the domain keeps its own); it then sets \<open>total_cells\<close> to the
  product of the resolution read, and returns the status of \<open>gzclose\<close>.
\<close>

theorem config_round_trip:
  assumes wf: "domain_wf mds"
    and wr: "writeConfiguration (Some True) mds = (True, Some bytes)"
  shows "readConfiguration mds' (Some \<lparr>gz_data = bytes, gz_close_ok = c\<rparr>)
         = (c, mds'\<lparr>active_fields := active_fields mds, res := res mds, dx := dx mds,
                   p0 := p0 mds, p1 := p1 mds, dp0 := dp0 mds, shift := shift mds,
                   obj_shift_f := obj_shift_f mds, obmat := obmat mds,
                   base_res := base_res mds, res_min := res_min mds, res_max := res_max mds,
                   active_color := active_color mds,
                   total_cells := res mds ! 0 * res mds ! 1 * res mds ! 2\<rparr>)"
proof -
  have b: "bytes = enc32 (active_fields mds) @ mem32 (res mds) @ enc32 (dx mds) @ enc32 (dt mds)
             @ mem32 (p0 mds) @ mem32 (p1 mds) @ mem32 (dp0 mds) @ mem32 (shift mds)
             @ mem32 (obj_shift_f mds) @ mem32 (obmat mds) @ mem32 (base_res mds)
             @ mem32 (res_min mds) @ mem32 (res_max mds) @ mem32 (active_color mds) @ []"
    using wr wf by (simp add: writeConfiguration_def gzwrite_def domain_wf_def)
  show ?thesis
    using wf unfolding b readConfiguration_def domain_wf_def
    by (simp add: read_scalar_exact read_array_exact gzread_unused_exact
          read_array_exact [where rest = "[]", simplified])
qed

theorem config_round_trip_witness:
  "readConfiguration domain1
     (Some \<lparr>gz_data = the (snd (writeConfiguration (Some True) domain0)), gz_close_ok = True\<rparr>)
   = (True, domain0\<lparr>dt := 0x40000000\<rparr>)"
  using config_round_trip
          [of domain0 "the (snd (writeConfiguration (Some True) domain0))" domain1 True]
  by (simp add: domain_wf_def writeConfiguration_def domain0_def domain1_def)

subsection \<open>The number of chunks\<close>

lemmas nc = num_chunks_def float_div_def float_of_int_def round_half_even_def
  ilog2_ratio_def ceil_float_def bit_length.simps [of "numeral n" for n]
  bit_length.simps [of 0] bit_length.simps [of "Suc 0"] Let_def

lemma bit_length_0 [simp]: "bit_length 0 = 0"
  by (simp add: bit_length.simps)

lemma bit_length_pos: "0 < n \<Longrightarrow> bit_length n = Suc (bit_length (n div 2))"
  by (subst bit_length.simps) simp

lemma bit_length_upper: "n < 2 ^ bit_length n"
proof (induction n rule: bit_length.induct)
  case (1 n)
  show ?case
  proof (cases "n = 0")
    case True
    then show ?thesis by simp
  next
    case False
    then have "n div 2 < 2 ^ bit_length (n div 2)" using 1 by simp
    then have "n < 2 * 2 ^ bit_length (n div 2)" by linarith
    then show ?thesis using False by (simp add: bit_length_pos)
  qed
qed

lemma bit_length_lower: "0 < n \<Longrightarrow> 2 ^ (bit_length n - 1) \<le> n"
proof (induction n rule: bit_length.induct)
  case (1 n)
  show ?case
  proof (cases "n div 2 = 0")
    case True
    then have "n = 1" using "1.prems" by linarith
    then show ?thesis by (simp add: bit_length_pos)
  next
    case False
    then have h: "0 < n div 2" by simp
    then have "2 ^ (bit_length (n div 2) - 1) \<le> n div 2" using 1 by simp
    moreover have "bit_length (n div 2) = Suc (bit_length (n div 2) - 1)"
      using h by (simp add: bit_length_pos)
    ultimately have "2 ^ bit_length (n div 2) \<le> 2 * (n div 2)"
      by (metis power_Suc mult_le_mono2)
    then have "2 ^ bit_length (n div 2) \<le> n" by linarith
    then show ?thesis using "1.prems" by (simp add: bit_length_pos)
  qed
qed

lemma one_le_div: "0 < b \<Longrightarrow> b \<le> a \<Longrightarrow> (1::int) \<le> a div b"
  using pos_imp_zdiv_pos_iff [of b a] by linarith

lemma round_half_even_ge: "0 < q \<Longrightarrow> p div q \<le> round_half_even p q"
  by (simp add: round_half_even_def Let_def)

lemma float_of_int_pos:
  assumes "0 < n"
  shows "0 < float_of_int n"
proof -
  let ?a = "nat \<bar>n\<bar>"
  let ?sh = "bit_length ?a - 24"
  have a: "0 < ?a" using assms by simp
  have "(2::nat) ^ ?sh \<le> 2 ^ (bit_length ?a - 1)"
    by (rule power_increasing) auto
  also have "\<dots> \<le> ?a" using a by (rule bit_length_lower)
  finally have "(2::nat) ^ ?sh \<le> ?a" .
  then have "(2::int) ^ ?sh \<le> \<bar>n\<bar>"
    by (metis int_nat_eq abs_ge_zero of_nat_le_iff of_nat_numeral of_nat_power)
  then have "1 \<le> \<bar>n\<bar> div 2 ^ ?sh"
    by (intro one_le_div) auto
  then have "1 \<le> round_half_even \<bar>n\<bar> (2 ^ ?sh)"
    using round_half_even_ge [of "2 ^ ?sh" "\<bar>n\<bar>"] by simp
  then have "0 < round_half_even \<bar>n\<bar> (2 ^ ?sh) * 2 ^ ?sh" by simp
  then show ?thesis using assms by (simp add: float_of_int_def Let_def)
qed

text \<open>The exponent chosen by \<open>ilog2_ratio\<close> is not too large: \<open>2^e \<le> p / q\<close>.\<close>

lemma ilog2_ratio_le:
  assumes "0 < p" and "0 < q"
  shows "if 0 \<le> ilog2_ratio p q then 2 ^ nat (ilog2_ratio p q) * q \<le> p
         else q \<le> p * 2 ^ nat (- ilog2_ratio p q)"
proof -
  let ?bp = "bit_length (nat p)" and ?bq = "bit_length (nat q)"
  let ?e0 = "int ?bp - int ?bq"
  have bp: "(2::int) ^ (?bp - 1) \<le> p"
    using bit_length_lower [of "nat p"] assms(1)
    by (metis nat_0_less_mult_iff nat_le_iff of_nat_numeral of_nat_power zero_less_nat_eq mult.right_neutral nat_eq_iff2 less_imp_le zero_less_one nat_0_iff nat_int of_nat_le_iff)
  have bq: "q < (2::int) ^ ?bq"
    using bit_length_upper [of "nat q"] assms(2)
    by (metis nat_less_iff of_nat_numeral of_nat_power less_imp_le)
  have bp1: "1 \<le> ?bp" using assms(1) by (simp add: bit_length_pos)
  have low: "if 0 \<le> ?e0 - 1 then 2 ^ nat (?e0 - 1) * q \<le> p
             else q \<le> p * 2 ^ nat (- (?e0 - 1))"
  proof (cases "0 \<le> ?e0 - 1")
    case True
    have "2 ^ nat (?e0 - 1) * q \<le> 2 ^ nat (?e0 - 1) * 2 ^ ?bq"
      using bq by (simp add: mult_left_mono)
    also have "\<dots> = (2::int) ^ (nat (?e0 - 1) + ?bq)" by (simp add: power_add)
    also have "nat (?e0 - 1) + ?bq = ?bp - 1" using True by linarith
    finally show ?thesis using True bp by simp
  next
    case False
    have "q \<le> 2 ^ ?bq" using bq by simp
    also have "?bq = (?bp - 1) + nat (- (?e0 - 1))" using False bp1 by linarith
    also have "(2::int) ^ ((?bp - 1) + nat (- (?e0 - 1))) = 2 ^ (?bp - 1) * 2 ^ nat (- (?e0 - 1))"
      by (simp add: power_add)
    also have "\<dots> \<le> p * 2 ^ nat (- (?e0 - 1))" using bp by (simp add: mult_right_mono)
    finally show ?thesis using False by simp
  qed
  show ?thesis
  proof (cases "if 0 \<le> ?e0 then 2 ^ nat ?e0 * q \<le> p else q \<le> p * 2 ^ nat (- ?e0)")
    case True
    then have e: "ilog2_ratio p q = ?e0" by (simp add: ilog2_ratio_def Let_def)
    show ?thesis unfolding e by (rule True)
  next
    case False
    then have e: "ilog2_ratio p q = ?e0 - 1" by (simp add: ilog2_ratio_def Let_def)
    show ?thesis unfolding e by (rule low)
  qed
qed

lemma float_div_pos:
  assumes "0 < p" and "0 < q"
  shows "0 < fst (float_div p q)"
proof -
  let ?e = "ilog2_ratio p q"
  let ?s = "?e - 23"
  have le: "if 0 \<le> ?e then 2 ^ nat ?e * q \<le> p else q \<le> p * 2 ^ nat (- ?e)"
    using assms by (rule ilog2_ratio_le)
  have m: "1 \<le> (if 0 \<le> ?s then round_half_even p (q * 2 ^ nat ?s)
                  else round_half_even (p * 2 ^ nat (- ?s)) q)"
  proof (cases "0 \<le> ?s")
    case True
    then have "0 \<le> ?e" by simp
    then have "2 ^ nat ?e * q \<le> p" using le by simp
    moreover have "(2::int) ^ nat ?s \<le> 2 ^ nat ?e" by (rule power_increasing) auto
    ultimately have "q * 2 ^ nat ?s \<le> p"
      using assms(2) by (smt (verit) mult.commute mult_right_mono)
    moreover have "0 < q * 2 ^ nat ?s" using assms(2) by simp
    ultimately have "1 \<le> p div (q * 2 ^ nat ?s)"
      by (intro one_le_div)
    then show ?thesis
      using True round_half_even_ge [of "q * 2 ^ nat ?s" p] \<open>0 < q * 2 ^ nat ?s\<close> by simp
  next
    case False
    have "q \<le> p * 2 ^ nat (- ?s)"
    proof (cases "0 \<le> ?e")
      case True
      then have "2 ^ nat ?e * q \<le> p" using le by simp
      moreover have "q \<le> 2 ^ nat ?e * q" using assms(2) by simp
      moreover have "p \<le> p * 2 ^ nat (- ?s)" using assms(1) by simp
      ultimately show ?thesis by linarith
    next
      case F: False
      then have "q \<le> p * 2 ^ nat (- ?e)" using le by simp
      moreover have "(2::int) ^ nat (- ?e) \<le> 2 ^ nat (- ?s)" by (rule power_increasing) auto
      ultimately show ?thesis
        using assms(1) by (smt (verit) mult_left_mono)
    qed
    then have "1 \<le> (p * 2 ^ nat (- ?s)) div q"
      using assms(2) by (intro one_le_div)
    then show ?thesis
      using False round_half_even_ge [of q "p * 2 ^ nat (- ?s)"] assms(2) by simp
  qed
  show ?thesis
    using assms m by (simp add: float_div_def Let_def)
qed

lemma ceil_float_pos: "0 < fst x \<Longrightarrow> 0 < ceil_float x"
proof (cases x)
  case (Pair m s)
  assume "0 < fst x"
  then have m: "0 < m" using Pair by simp
  show ?thesis
  proof (cases "0 \<le> s")
    case True
    then show ?thesis using m Pair by (simp add: ceil_float_def)
  next
    case False
    have "(- m) div 2 ^ nat (- s) < 0"
      using m by (simp add: neg_imp_zdiv_neg_iff div_neg_pos_less0)
    then show ?thesis using False Pair by (simp add: ceil_float_def)
  qed
qed

lemma num_chunks_pos: "0 < n \<Longrightarrow> 0 < chunk \<Longrightarrow> 0 < num_chunks n chunk"
  unfolding num_chunks_def
  by (intro ceil_float_pos float_div_pos float_of_int_pos)

lemma bit_length_le: "n < 2 ^ k \<Longrightarrow> bit_length n \<le> k"
proof (cases "n = 0")
  case True
  then show ?thesis by simp
next
  case False
  assume "n < 2 ^ k"
  moreover have "2 ^ (bit_length n - 1) \<le> n" using False by (intro bit_length_lower) simp
  ultimately have "(2::nat) ^ (bit_length n - 1) < 2 ^ k" by linarith
  then have "bit_length n - 1 < k" by (simp only: power_strict_increasing_iff rel_simps)
  then show ?thesis by simp
qed

lemma round_half_even_one [simp]: "round_half_even p 1 = p"
  by (simp add: round_half_even_def)

lemma round_half_even_lower:
  assumes "0 < q"
  shows "2 * p - q \<le> 2 * q * round_half_even p q"
proof -
  have pq: "p = q * (p div q) + p mod q" by simp
  have r: "0 \<le> p mod q" "p mod q < q" using assms by simp_all
  let ?f = "p div q" and ?r = "p mod q"
  have e: "2 * p = 2 * q * ?f + 2 * ?r"
  proof -
    have "q * ?f + ?r = p" by simp
    then have "2 * p = 2 * (q * ?f) + 2 * ?r" by linarith
    then show ?thesis by (simp only: mult.assoc)
  qed
  consider "2 * ?r < q" | "q < 2 * ?r" | "2 * ?r = q" by linarith
  then show ?thesis
  proof cases
    case 1
    then have "round_half_even p q = ?f" by (simp add: round_half_even_def Let_def)
    then show ?thesis using e 1 by simp
  next
    case 2
    then have "round_half_even p q = ?f + 1" by (simp add: round_half_even_def Let_def)
    then show ?thesis using e r by (simp add: algebra_simps)
  next
    case 3
    then have "round_half_even p q = ?f \<or> round_half_even p q = ?f + 1"
      by (simp add: round_half_even_def Let_def)
    then show ?thesis
    proof
      assume "round_half_even p q = ?f"
      then show ?thesis using e 3 by simp
    next
      assume "round_half_even p q = ?f + 1"
      then show ?thesis using e r by (simp add: algebra_simps)
    qed
  qed
qed

text \<open>Up to \<open>2^24\<close> the conversion to \<open>float\<close> is exact.\<close>

lemma float_of_int_exact:
  assumes "0 < n" and "n \<le> 2 ^ 24"
  shows "float_of_int n = n"
proof (cases "n = 2 ^ 24")
  case True
  then show ?thesis by (simp add: nc)
next
  case False
  then have "nat \<bar>n\<bar> < 2 ^ 24" using assms by simp
  then have "bit_length (nat \<bar>n\<bar>) \<le> 24" by (rule bit_length_le)
  then have "bit_length (nat \<bar>n\<bar>) - 24 = 0" by simp
  then show ?thesis using assms by (simp add: float_of_int_def Let_def)
qed

text \<open>
  Up to \<open>2^24\<close> records the rounding of the quotient cannot lose a chunk: the computed
  number of chunks covers the count.
\<close>

lemma num_chunks_enough:
  assumes n: "0 < n" "n \<le> 2 ^ 24"
  shows "n \<le> num_chunks n 20000 * 20000"
proof -
  let ?q = "20000 :: int"
  let ?e = "ilog2_ratio n ?q"
  have le: "if 0 \<le> ?e then 2 ^ nat ?e * ?q \<le> n else ?q \<le> n * 2 ^ nat (- ?e)"
    using n(1) by (intro ilog2_ratio_le) simp_all
  have e9: "?e \<le> 9"
  proof (rule ccontr)
    assume "\<not> ?e \<le> 9"
    then have e: "10 \<le> ?e" by simp
    then have "2 ^ nat ?e * ?q \<le> n" using le by simp
    moreover have "(2::int) ^ 10 \<le> 2 ^ nat ?e" using e by (intro power_increasing) auto
    ultimately have "2 ^ 10 * ?q \<le> n" by linarith
    then show False using n(2) by simp
  qed
  define k where "k = nat (23 - ?e)"
  define d :: int where "d = 2 ^ k"
  define m where "m = round_half_even (n * d) ?q"
  define c where "c = - ((- m) div d)"
  have k14: "14 \<le> k" using e9 by (simp add: k_def)
  have "(2::int) ^ 14 \<le> 2 ^ k" using k14 by (intro power_increasing) auto
  then have d: "16384 \<le> d" by (simp add: d_def)
  have s: "\<not> 0 \<le> ?e - 23" using e9 by simp
  have absn: "\<bar>n\<bar> = n" "sgn n = 1" using n(1) by simp_all
  have fd: "float_div n ?q = (m, ?e - 23)"
    using n(1) s by (simp add: float_div_def Let_def absn m_def d_def k_def)
  have cf: "num_chunks n 20000 = c"
    using s by (simp add: num_chunks_def float_of_int_exact [OF n] fd ceil_float_def c_def
          d_def k_def)
  have A: "2 * (n * d) - ?q \<le> 2 * ?q * m"
    unfolding m_def by (intro round_half_even_lower) simp
  have B: "m \<le> c * d"
  proof -
    have "(- m) div d * d + (- m) mod d = - m" by simp
    moreover have "0 \<le> (- m) mod d" using d by simp
    ultimately have "(- m) div d * d \<le> - m" by linarith
    then show ?thesis by (simp add: c_def)
  qed
  have "n \<le> c * ?q"
  proof (rule ccontr)
    assume "\<not> n \<le> c * ?q"
    then have "c * ?q + 1 \<le> n" by simp
    then have "(c * ?q + 1) * d \<le> n * d" using d by (intro mult_right_mono) auto
    then have 1: "?q * (c * d) + d \<le> n * d" by (simp add: algebra_simps)
    have 2: "?q * m \<le> ?q * (c * d)" using B by (intro mult_left_mono) auto
    show False using 1 2 A d by linarith
  qed
  then show ?thesis by (simp add: cf)
qed

subsection \<open>The chunk loop\<close>

lemma length_written [simp]: "length (written put sz bytes start cnt dst) = length dst"
  by (simp add: written_def)

lemma written_0 [simp]: "written put sz bytes start 0 dst = dst"
  unfolding written_def by (intro nth_equalityI) auto

lemma store_records_upt:
  assumes "b \<le> length dst"
  shows "store_records put sz buf [a..<b] k dst
         = Inr (map (\<lambda>j. if a \<le> j \<and> j < b
                          then put (take sz (drop (sz * (k + (j - a))) buf)) (dst ! j)
                          else dst ! j) [0..<length dst])"
  using assms
proof (induction "b - a" arbitrary: a k dst)
  case 0
  then have e: "[a..<b] = []" by simp
  have m: "map (\<lambda>j. if a \<le> j \<and> j < b
                          then put (take sz (drop (sz * (k + (j - a))) buf)) (dst ! j)
                          else dst ! j) [0..<length dst] = dst"
    using 0 by (intro nth_equalityI) auto
  show ?case unfolding e m by simp
next
  case (Suc n)
  then have ab: "a < b" by simp
  let ?dst1 = "dst[a := put (take sz (drop (sz * k) buf)) (dst ! a)]"
  have "store_records put sz buf [a..<b] k dst
        = store_records put sz buf [Suc a..<b] (Suc k) ?dst1"
    using ab Suc.prems by (simp add: upt_conv_Cons)
  also have "\<dots> = Inr (map (\<lambda>j. if Suc a \<le> j \<and> j < b
                          then put (take sz (drop (sz * (Suc k + (j - Suc a))) buf)) (?dst1 ! j)
                          else ?dst1 ! j) [0..<length ?dst1])"
    using Suc.hyps(2) Suc.prems by (intro Suc.hyps(1)) auto
  also have "map (\<lambda>j. if Suc a \<le> j \<and> j < b
                          then put (take sz (drop (sz * (Suc k + (j - Suc a))) buf)) (?dst1 ! j)
                          else ?dst1 ! j) [0..<length ?dst1]
             = map (\<lambda>j. if a \<le> j \<and> j < b
                          then put (take sz (drop (sz * (k + (j - a))) buf)) (dst ! j)
                          else dst ! j) [0..<length dst]"
  proof (intro nth_equalityI)
    show "length (map (\<lambda>j. if Suc a \<le> j \<and> j < b
                          then put (take sz (drop (sz * (Suc k + (j - Suc a))) buf)) (?dst1 ! j)
                          else ?dst1 ! j) [0..<length ?dst1])
          = length (map (\<lambda>j. if a \<le> j \<and> j < b
                          then put (take sz (drop (sz * (k + (j - a))) buf)) (dst ! j)
                          else dst ! j) [0..<length dst])"
      by simp
  next
    fix j
    assume "j < length (map (\<lambda>j. if Suc a \<le> j \<and> j < b
                          then put (take sz (drop (sz * (Suc k + (j - Suc a))) buf)) (?dst1 ! j)
                          else ?dst1 ! j) [0..<length ?dst1])"
    then have j: "j < length dst" by simp
    have "Suc a \<le> j \<Longrightarrow> Suc k + (j - Suc a) = k + (j - a)" by simp
    then show "map (\<lambda>j. if Suc a \<le> j \<and> j < b
                          then put (take sz (drop (sz * (Suc k + (j - Suc a))) buf)) (?dst1 ! j)
                          else ?dst1 ! j) [0..<length ?dst1] ! j
          = map (\<lambda>j. if a \<le> j \<and> j < b
                          then put (take sz (drop (sz * (k + (j - a))) buf)) (dst ! j)
                          else dst ! j) [0..<length dst] ! j"
      using j ab Suc.prems by (cases "j = a") (auto simp: nth_list_update)
  qed
  finally show ?case .
qed

lemma store_records_written:
  "start + cnt \<le> length dst \<Longrightarrow>
   store_records put sz buf [start..<start + cnt] 0 dst = Inr (written put sz buf start cnt dst)"
  by (simp add: store_records_upt written_def)

text \<open>Only the first \<open>cnt\<close> records of the bytes matter.\<close>

lemma written_cong_bytes:
  assumes "take (cnt * sz) bytes = take (cnt * sz) bytes'"
  shows "written put sz bytes start cnt dst = written put sz bytes' start cnt dst"
proof -
  have "take sz (drop (sz * k) bytes) = take sz (drop (sz * k) bytes')" if "k < cnt" for k
  proof -
    have le: "sz * k + sz \<le> cnt * sz"
    proof -
      have "sz * (k + 1) \<le> sz * cnt" using that by (intro mult_le_mono2) simp
      then show ?thesis by (simp add: mult.commute)
    qed
    have "take sz (drop (sz * k) bytes) = take sz (drop (sz * k) (take (cnt * sz) bytes))"
      using le by (simp add: drop_take min_def)
    also have "\<dots> = take sz (drop (sz * k) (take (cnt * sz) bytes'))"
      using assms by simp
    also have "\<dots> = take sz (drop (sz * k) bytes')"
      using le by (simp add: drop_take min_def)
    finally show ?thesis .
  qed
  then show ?thesis
    by (auto simp add: written_def)
qed

lemma written_written:
  "written put sz (drop (c1 * sz) bytes) (start + c1) c2 (written put sz bytes start c1 dst)
   = written put sz bytes start (c1 + c2) dst"
proof (intro nth_equalityI)
  show "length (written put sz (drop (c1 * sz) bytes) (start + c1) c2
                  (written put sz bytes start c1 dst))
        = length (written put sz bytes start (c1 + c2) dst)"
    by simp
next
  fix j
  assume "j < length (written put sz (drop (c1 * sz) bytes) (start + c1) c2
                  (written put sz bytes start c1 dst))"
  then have j: "j < length dst" by simp
  have "start + c1 \<le> j \<Longrightarrow> sz * (j - (start + c1)) + c1 * sz = sz * (j - start)"
  proof -
    assume "start + c1 \<le> j"
    then have "j - start = c1 + (j - (start + c1))" by simp
    then show ?thesis by (simp add: algebra_simps)
  qed
  then show "written put sz (drop (c1 * sz) bytes) (start + c1) c2
                  (written put sz bytes start c1 dst) ! j
        = written put sz bytes start (c1 + c2) dst ! j"
    using j by (auto simp add: written_def)
qed

lemma gzfile_update_same [simp]: "gzf\<lparr>gz_data := gz_data gzf\<rparr> = gzf"
  by simp

lemma chunk_loop_exit:
  "\<not> (i < numChunks \<and> 0 < todo) \<Longrightarrow>
   chunk_loop CHUNK put sz numChunks numBuffer i todo buf gzf dst = Inr (True, dst, gzf)"
  by (subst chunk_loop.simps) auto

lemma chunk_loop_exhausted:
  assumes "i < numChunks" and "0 < todo" and "gz_data gzf = []"
    and "nat (if todo < CHUNK then todo else CHUNK) * sz < 2 ^ 31"
  shows "chunk_loop CHUNK put sz numChunks numBuffer i todo buf gzf dst = Inr (False, dst, gzf)"
proof -
  have "gzf\<lparr>gz_data := []\<rparr> = gzf" using assms(3) by (cases gzf) simp
  then show ?thesis
    using assms by (subst chunk_loop.simps) (simp add: gzread_def Let_def)
qed

lemma chunk_loop_step:
  assumes i: "i < numChunks" and t: "0 < t" "t \<le> N" and len: "length dst = N"
    and C: "0 < C" and sz: "0 < sz"
    and small: "min t C * sz < 2 ^ 31" and avail: "min t C * sz \<le> length (gz_data gzf)"
  shows "chunk_loop (int C) put sz numChunks (int N) i (int t) buf gzf dst
         = chunk_loop (int C) put sz numChunks (int N) (i + 1) (int (t - min t C))
             (take (min t C * sz) (gz_data gzf) @ drop (min t C * sz) buf)
             (gzf\<lparr>gz_data := drop (min t C * sz) (gz_data gzf)\<rparr>)
             (written put sz (gz_data gzf) (N - t) (min t C) dst)"
proof -
  let ?r = "min t C"
  let ?buf' = "take (?r * sz) (gz_data gzf) @ drop (?r * sz) buf"
  have r: "0 < ?r" "?r \<le> t" using t C by auto
  have readLen: "(if int t < int C then int t else int C) = int ?r" by (simp add: min_def)
  have rd: "gzread gzf buf (?r * sz)
            = (int (?r * sz), ?buf', gzf\<lparr>gz_data := drop (?r * sz) (gz_data gzf)\<rparr>)"
    using small avail by (simp add: gzread_def Let_def min_def)
  have nz: "int (?r * sz) \<noteq> 0" using r sz by simp
  have rs: "CLAMP (int N - int t) 0 (int N) = int (N - t)"
    using t by (simp add: CLAMP_def)
  have re: "CLAMP (int (N - t) + int ?r) 0 (int N) = int (N - t + ?r)"
    using t r by (simp add: CLAMP_def)
  have st: "store_records put sz ?buf' [N - t..<N - t + ?r] 0 dst
            = Inr (written put sz (gz_data gzf) (N - t) ?r dst)"
  proof -
    have "store_records put sz ?buf' [N - t..<N - t + ?r] 0 dst
          = Inr (written put sz ?buf' (N - t) ?r dst)"
      using t r len by (intro store_records_written) simp
    moreover have "written put sz ?buf' (N - t) ?r dst
          = written put sz (gz_data gzf) (N - t) ?r dst"
      using avail by (intro written_cong_bytes) simp
    ultimately show ?thesis by simp
  qed
  have td: "int t - int ?r = int (t - ?r)" using r by simp
  show ?thesis
    apply (subst chunk_loop.simps)
    apply (simp only: readLen nat_int rd prod.case Let_def nz rs re st sum.case td if_False)
    using i t apply simp
    done
qed

lemma chunk_loop_full_chunks:
  assumes "int k \<le> numChunks - i" and "k * C \<le> t" and "t \<le> N" and "length dst = N"
    and "0 < C" and "0 < sz" and "C * sz < 2 ^ 31"
    and "k * C * sz \<le> length (gz_data gzf)"
  shows "\<exists>buf'. chunk_loop (int C) put sz numChunks (int N) i (int t) buf gzf dst
         = chunk_loop (int C) put sz numChunks (int N) (i + int k) (int (t - k * C)) buf'
             (gzf\<lparr>gz_data := drop (k * C * sz) (gz_data gzf)\<rparr>)
             (written put sz (gz_data gzf) (N - t) (k * C) dst)"
  using assms
proof (induction k arbitrary: i t buf gzf dst)
  case 0
  then show ?case by (intro exI [of _ buf]) simp
next
  case (Suc k)
  let ?d = "gz_data gzf"
  let ?gzf1 = "gzf\<lparr>gz_data := drop (C * sz) ?d\<rparr>"
  let ?dst1 = "written put sz ?d (N - t) C dst"
  have Ct: "C \<le> t" using Suc.prems(2) by simp
  then have m: "min t C = C" by simp
  have av: "C * sz \<le> length ?d"
  proof -
    have "C * sz \<le> Suc k * C * sz" by simp
    then show ?thesis using Suc.prems(8) by linarith
  qed
  have step: "chunk_loop (int C) put sz numChunks (int N) i (int t) buf gzf dst
        = chunk_loop (int C) put sz numChunks (int N) (i + 1) (int (t - C))
             (take (C * sz) ?d @ drop (C * sz) buf) ?gzf1 ?dst1"
    using chunk_loop_step [of i numChunks t N dst C sz gzf put buf] Suc.prems Ct av
    by (simp add: m)
  have "\<exists>buf'. chunk_loop (int C) put sz numChunks (int N) (i + 1) (int (t - C))
             (take (C * sz) ?d @ drop (C * sz) buf) ?gzf1 ?dst1
         = chunk_loop (int C) put sz numChunks (int N) (i + 1 + int k) (int (t - C - k * C)) buf'
             (?gzf1\<lparr>gz_data := drop (k * C * sz) (gz_data ?gzf1)\<rparr>)
             (written put sz (gz_data ?gzf1) (N - (t - C)) (k * C) ?dst1)"
  proof (rule Suc.IH)
    show "int k \<le> numChunks - (i + 1)" using Suc.prems(1) by simp
    show "k * C \<le> t - C" using Suc.prems(2) by simp
    show "t - C \<le> N" using Suc.prems(3) by simp
    show "length ?dst1 = N" using Suc.prems(4) by simp
    show "0 < C" "0 < sz" "C * sz < 2 ^ 31" by fact+
    show "k * C * sz \<le> length (gz_data ?gzf1)"
      using Suc.prems(8) by (simp add: algebra_simps)
  qed
  then obtain buf' where ih:
    "chunk_loop (int C) put sz numChunks (int N) (i + 1) (int (t - C))
             (take (C * sz) ?d @ drop (C * sz) buf) ?gzf1 ?dst1
         = chunk_loop (int C) put sz numChunks (int N) (i + 1 + int k) (int (t - C - k * C)) buf'
             (?gzf1\<lparr>gz_data := drop (k * C * sz) (gz_data ?gzf1)\<rparr>)
             (written put sz (gz_data ?gzf1) (N - (t - C)) (k * C) ?dst1)"
    by blast
  have e1: "i + 1 + int k = i + int (Suc k)" by simp
  have e2: "t - C - k * C = t - Suc k * C" by simp
  have e3: "?gzf1\<lparr>gz_data := drop (k * C * sz) (gz_data ?gzf1)\<rparr>
            = gzf\<lparr>gz_data := drop (Suc k * C * sz) ?d\<rparr>"
    by (simp add: algebra_simps)
  have e4: "written put sz (gz_data ?gzf1) (N - (t - C)) (k * C) ?dst1
            = written put sz ?d (N - t) (Suc k * C) dst"
  proof -
    have "N - (t - C) = (N - t) + C" using Ct Suc.prems(3) by simp
    then show ?thesis
      using written_written [of put sz C ?d "N - t" "k * C" dst] by simp
  qed
  show ?case
    using step ih unfolding e1 e2 e3 e4 by (intro exI [of _ buf']) simp
qed

text \<open>
  With enough chunks and enough bytes, the loop stores record \<open>j\<close> of the file into element
  \<open>j\<close> of the vector, for every \<open>j\<close>, whether or not the count is a multiple of the chunk
  size.
\<close>

lemma chunk_loop_complete:
  assumes N: "int N \<le> numChunks * int C" and len: "length dst = N"
    and C: "0 < C" and sz: "0 < sz" and small: "C * sz < 2 ^ 31"
    and avail: "N * sz \<le> length (gz_data gzf)"
  shows "chunk_loop (int C) put sz numChunks (int N) 0 (int N) buf gzf dst
         = Inr (True, written put sz (gz_data gzf) 0 N dst,
                gzf\<lparr>gz_data := drop (N * sz) (gz_data gzf)\<rparr>)"
proof -
  let ?k = "N div C" and ?d = "gz_data gzf"
  let ?t = "N - ?k * C"
  have kC: "?k * C \<le> N" by simp
  have t: "?t = N mod C" by (simp add: minus_div_mult_eq_mod)
  have knc: "int ?k \<le> numChunks"
  proof -
    have "int ?k * int C \<le> numChunks * int C" using N kC by (metis of_nat_mult of_nat_le_iff order_trans)
    then show ?thesis using C by simp
  qed
  have "?k * C * sz \<le> N * sz" using kC by simp
  then have av: "?k * C * sz \<le> length ?d" using avail by linarith
  obtain buf' where full:
    "chunk_loop (int C) put sz numChunks (int N) 0 (int N) buf gzf dst
     = chunk_loop (int C) put sz numChunks (int N) (0 + int ?k) (int ?t) buf'
         (gzf\<lparr>gz_data := drop (?k * C * sz) ?d\<rparr>) (written put sz ?d (N - N) (?k * C) dst)"
    using chunk_loop_full_chunks [of ?k numChunks 0 C N N dst sz gzf put buf]
      knc kC len C sz small av by auto
  show ?thesis
  proof (cases "?t = 0")
    case True
    then have "?k * C = N" using kC by simp
    then show ?thesis
      using full True by (simp add: chunk_loop_exit)
  next
    case False
    let ?gzf1 = "gzf\<lparr>gz_data := drop (?k * C * sz) ?d\<rparr>"
    let ?dst1 = "written put sz ?d 0 (?k * C) dst"
    have tC: "?t < C" using t C by simp
    then have m: "min ?t C = ?t" by simp
    have lt: "int ?k < numChunks"
    proof (rule ccontr)
      assume "\<not> int ?k < numChunks"
      then have "numChunks = int ?k" using knc by simp
      then have "int N \<le> int (?k * C)" using N by simp
      then have "N \<le> ?k * C" by (simp only: of_nat_le_iff)
      then show False using False by simp
    qed
    have sm: "?t * sz < 2 ^ 31"
    proof -
      have "?t * sz \<le> C * sz" using tC by simp
      then show ?thesis using small by linarith
    qed
    have av1: "?t * sz \<le> length (gz_data ?gzf1)"
    proof -
      have "?k * C * sz + ?t * sz = N * sz"
        using kC by (metis add_mult_distrib le_add_diff_inverse)
      then show ?thesis using avail by simp
    qed
    have step: "chunk_loop (int C) put sz numChunks (int N) (int ?k) (int ?t) buf' ?gzf1 ?dst1
        = chunk_loop (int C) put sz numChunks (int N) (int ?k + 1) (int (?t - ?t))
             (take (?t * sz) (gz_data ?gzf1) @ drop (?t * sz) buf')
             (?gzf1\<lparr>gz_data := drop (?t * sz) (gz_data ?gzf1)\<rparr>)
             (written put sz (gz_data ?gzf1) (N - ?t) ?t ?dst1)"
      using chunk_loop_step [of "int ?k" numChunks ?t N ?dst1 C sz ?gzf1 put buf']
        lt False len C sz sm av1 by (simp add: m)
    have e3: "?gzf1\<lparr>gz_data := drop (?t * sz) (gz_data ?gzf1)\<rparr>
              = gzf\<lparr>gz_data := drop (N * sz) ?d\<rparr>"
    proof -
      have "?t * sz + ?k * C * sz = N * sz"
        using kC by (metis add.commute add_mult_distrib le_add_diff_inverse)
      then show ?thesis by simp
    qed
    have e4: "written put sz (gz_data ?gzf1) (N - ?t) ?t ?dst1 = written put sz ?d 0 N dst"
    proof -
      have "N - ?t = 0 + ?k * C" using kC by simp
      moreover have "?k * C + ?t = N" using kC by simp
      ultimately show ?thesis
        using written_written [of put sz "?k * C" ?d 0 ?t dst] by simp
    qed
    show ?thesis
      using full step unfolding e3 e4 by (simp add: chunk_loop_exit)
  qed
qed

text \<open>
  With too few chunks, the loop stops after \<open>numChunks\<close> chunks: the elements from
  \<open>numChunks * CHUNK\<close> on are not written, and the loop still reports success.
\<close>

lemma chunk_loop_truncated:
  assumes nc: "0 \<le> numChunks" "nat numChunks * C \<le> N" and len: "length dst = N"
    and C: "0 < C" and sz: "0 < sz" and small: "C * sz < 2 ^ 31"
    and avail: "nat numChunks * C * sz \<le> length (gz_data gzf)"
  shows "chunk_loop (int C) put sz numChunks (int N) 0 (int N) buf gzf dst
         = Inr (True, written put sz (gz_data gzf) 0 (nat numChunks * C) dst,
                gzf\<lparr>gz_data := drop (nat numChunks * C * sz) (gz_data gzf)\<rparr>)"
proof -
  let ?k = "nat numChunks"
  obtain buf' where full:
    "chunk_loop (int C) put sz numChunks (int N) 0 (int N) buf gzf dst
     = chunk_loop (int C) put sz numChunks (int N) (0 + int ?k) (int (N - ?k * C)) buf'
         (gzf\<lparr>gz_data := drop (?k * C * sz) (gz_data gzf)\<rparr>)
         (written put sz (gz_data gzf) (N - N) (?k * C) dst)"
    using chunk_loop_full_chunks [of ?k numChunks 0 C N N dst sz gzf put buf]
      nc len C sz small avail by auto
  show ?thesis
    using full nc(1) by (simp add: chunk_loop_exit)
qed

lemma chunk_loop_short_file:
  assumes "int k < numChunks - i" and "k * C < t" and "t \<le> N" and "length dst = N"
    and "0 < C" and "0 < sz" and "C * sz < 2 ^ 31"
    and "length (gz_data gzf) = k * C * sz"
  shows "chunk_loop (int C) put sz numChunks (int N) i (int t) buf gzf dst
         = Inr (False, written put sz (gz_data gzf) (N - t) (k * C) dst, gzf\<lparr>gz_data := []\<rparr>)"
proof -
  obtain buf' where full:
    "chunk_loop (int C) put sz numChunks (int N) i (int t) buf gzf dst
     = chunk_loop (int C) put sz numChunks (int N) (i + int k) (int (t - k * C)) buf'
         (gzf\<lparr>gz_data := drop (k * C * sz) (gz_data gzf)\<rparr>)
         (written put sz (gz_data gzf) (N - t) (k * C) dst)"
    using chunk_loop_full_chunks [of k numChunks i C t N dst sz gzf put buf] assms by auto
  have sm: "nat (if int (t - k * C) < int C then int (t - k * C) else int C) * sz < 2 ^ 31"
  proof -
    have "nat (if int (t - k * C) < int C then int (t - k * C) else int C) \<le> C" by simp
    then have "nat (if int (t - k * C) < int C then int (t - k * C) else int C) * sz \<le> C * sz"
      by (rule mult_le_mono1)
    then show ?thesis using assms(7) by linarith
  qed
  have "chunk_loop (int C) put sz numChunks (int N) (i + int k) (int (t - k * C)) buf'
         (gzf\<lparr>gz_data := drop (k * C * sz) (gz_data gzf)\<rparr>)
         (written put sz (gz_data gzf) (N - t) (k * C) dst)
        = Inr (False, written put sz (gz_data gzf) (N - t) (k * C) dst,
               gzf\<lparr>gz_data := drop (k * C * sz) (gz_data gzf)\<rparr>)"
  proof (intro chunk_loop_exhausted)
    show "i + int k < numChunks" using assms(1) by simp
    have "0 < t - k * C" using assms(2) by simp
    then show "0 < int (t - k * C)" by (simp only: of_nat_0_less_iff)
    show "gz_data (gzf\<lparr>gz_data := drop (k * C * sz) (gz_data gzf)\<rparr>) = []"
      using assms(8) by simp
    show "nat (if int (t - k * C) < int C then int (t - k * C) else int C) * sz < 2 ^ 31"
      by (rule sm)
  qed
  then show ?thesis using full assms(8) by simp
qed

lemma sint_small:
  fixes w :: "32 word"
  assumes "unat w < 2 ^ 31"
  shows "sint w = int (unat w)"
proof -
  have u: "uint w = int (unat w)" by (rule uint_nat)
  also have "\<dots> < int (2 ^ 31)" using assms by (simp only: of_nat_less_iff)
  also have "int (2 ^ 31) = 2 ^ 31" by simp
  finally have "uint w < 2 ^ 31" .
  moreover have "- (2 ^ 31) \<le> uint w"
  proof -
    have "(0::int) \<le> uint w" by simp
    moreover have "- (2 ^ 31) \<le> (0::int)" by simp
    ultimately show ?thesis by linarith
  qed
  ultimately have "signed_take_bit 31 (uint w) = uint w"
    by (intro signed_take_bit_int_eq_self)
  then have "sint w = uint w" by (simp add: sint_uint)
  then show ?thesis using u by (simp only:)
qed

subsection \<open>Reads at the end of the file\<close>

lemma header_words:
  assumes "28 \<le> length d"
  shows "word_at (take 16 (drop 4 d) @ ys) 0 = word_at (drop 4 d) 0"
    and "le32 (take 4 (drop 20 d) @ zs) = word_at (drop 4 d) 4"
    and "le32 (take 4 (drop 24 d) @ zs) = word_at (drop 4 d) 5"
proof -
  show "word_at (take 16 (drop 4 d) @ ys) 0 = word_at (drop 4 d) 0"
    using assms by (intro word_at_take_append) auto
  show "le32 (take 4 (drop 20 d) @ zs) = word_at (drop 4 d) 4"
    using assms by (simp add: word_at_def le32_def)
  show "le32 (take 4 (drop 24 d) @ zs) = word_at (drop 4 d) 5"
    using assms by (simp add: word_at_def le32_def)
qed

lemma chunk_bytes_small:
  assumes "k \<le> 20000" and "sz \<le> 16"
  shows "k * sz < (2::nat) ^ 31"
proof -
  have "k * sz \<le> 20000 * 16" using assms by (rule mult_le_mono)
  then show ?thesis by simp
qed

lemma updateGridFromRaw_cases:
  assumes a: "0 < unat (grid_bytes (if isNoise then mResXNoise s else mResX s)
                (if isNoise then mResYNoise s else mResY s)
                (if isNoise then mResZNoise s else mResZ s))
      \<and> unat (grid_bytes (if isNoise then mResXNoise s else mResX s)
                (if isNoise then mResYNoise s else mResY s)
                (if isNoise then mResZNoise s else mResZ s)) < 2 ^ 31"
  shows "updateGridFromRaw debug s (Some gzf) grid isNoise
        = (let n = unat (grid_bytes (if isNoise then mResXNoise s else mResX s)
                           (if isNoise then mResYNoise s else mResY s)
                           (if isNoise then mResZNoise s else mResZ s))
           in if gz_data gzf = [] then Inr (False, grid)
              else if length (gz_data gzf) < n
              then (if debug then Inl AssertionFailed
                    else Inr (gz_close_ok gzf, gz_data gzf @ drop (length (gz_data gzf)) grid))
              else Inr (gz_close_ok gzf, take n (gz_data gzf) @ drop n grid))"
proof -
  let ?n = "unat (grid_bytes (if isNoise then mResXNoise s else mResX s)
                (if isNoise then mResYNoise s else mResY s)
                (if isNoise then mResZNoise s else mResZ s))"
  define n where "n = ?n"
  have n: "0 < n" "n < 2 ^ 31" using a by (simp_all add: n_def)
  have si: "sint (grid_bytes (if isNoise then mResXNoise s else mResX s)
                (if isNoise then mResYNoise s else mResY s)
                (if isNoise then mResZNoise s else mResZ s)) = int n"
    unfolding n_def using a by (intro sint_small) blast
  have raw: "updateGridFromRaw debug s (Some gzf) grid isNoise
        = (case gzread gzf grid n of
             (readBytes, grid', gzf1) \<Rightarrow>
               if readBytes = 0 then Inr (False, grid')
               else if debug \<and> int n \<noteq> readBytes then Inl AssertionFailed
               else Inr (gz_close_ok gzf1, grid'))"
    unfolding updateGridFromRaw_def Let_def option.case si n_def [symmetric] ..
  have "updateGridFromRaw debug s (Some gzf) grid isNoise
        = (if gz_data gzf = [] then Inr (False, grid)
           else if length (gz_data gzf) < n
           then (if debug then Inl AssertionFailed
                 else Inr (gz_close_ok gzf, gz_data gzf @ drop (length (gz_data gzf)) grid))
           else Inr (gz_close_ok gzf, take n (gz_data gzf) @ drop n grid))"
    unfolding raw using n by (auto simp add: gzread_def Let_def min_def)
  then show ?thesis
    by (simp add: n_def Let_def)
qed

lemma updateParticlesFromUni_no_payload:
  assumes len: "length (gz_data gzf) = 292"
    and magic: "take 4 (gz_data gzf) = bytes_of_string ''PB02''"
    and sanity: "word_at (drop 4 (gz_data gzf)) 5 = 16 \<or> word_at (drop 4 (gz_data gzf)) 4 \<noteq> 0"
    and pos: "0 < sint (word_at (drop 4 (gz_data gzf)) 0)"
  shows "updateParticlesFromUni u (Some gzf) isSecondarySys isVelData st
         = Inr (False, set_dataPointer isSecondarySys
                  (take (nat (sint (word_at (drop 4 (gz_data gzf)) 0)))
                     (dataPointer isSecondarySys st)
                   @ replicate (nat (sint (word_at (drop 4 (gz_data gzf)) 0))
                                - length (dataPointer isSecondarySys st)) pData0) st)"
proof -
  let ?d = "gz_data gzf"
  let ?N = "sint (word_at (drop 4 ?d) 0)"
  let ?v = "take (nat ?N) (dataPointer isSecondarySys st)
            @ replicate (nat ?N - length (dataPointer isSecondarySys st)) pData0"
  obtain fm where gm: "gzread gzf [0, 0, 0, 0, 0] 4
     = (int (min (length ?d) 4), fm, gzf\<lparr>gz_data := drop 4 ?d\<rparr>)"
    and mg0: "\<forall>s. length s = 4 \<longrightarrow> 0 \<notin> set (bytes_of_string s) \<longrightarrow>
           magic_is fm s = (take 4 ?d = bytes_of_string s)"
    using gzread_magic [of gzf] by blast
  note mg = mg0 [rule_format]
  have l28: "28 \<le> length ?d" using len by simp
  note hw = header_words [OF l28]
  have nz: "word_at (drop 4 ?d) 0 \<noteq> 0" using pos by auto
  have pb01: "take 4 ?d \<noteq> bytes_of_string ''PB01''"
    using magic by (simp add: bytes_of_string_def)
  have rs: "resize pData0 (dataPointer isSecondarySys st) ?N = Inr ?v"
    using pos by (simp add: resize_def)
  have loop: "chunk_loop PARTICLE_CHUNK put_pData 16 (num_chunks ?N PARTICLE_CHUNK) ?N 0 ?N
                (u_buffer u) \<lparr>gz_data = [], gz_close_ok = gz_close_ok gzf\<rparr> ?v
              = Inr (False, ?v, \<lparr>gz_data = [], gz_close_ok = gz_close_ok gzf\<rparr>)"
  proof (intro chunk_loop_exhausted)
    show "0 < num_chunks ?N PARTICLE_CHUNK"
      using pos by (intro num_chunks_pos) (simp_all add: PARTICLE_CHUNK_def)
    show "0 < ?N" by (rule pos)
    show "gz_data \<lparr>gz_data = [], gz_close_ok = gz_close_ok gzf\<rparr> = []" by simp
    have "nat (if ?N < PARTICLE_CHUNK then ?N else PARTICLE_CHUNK) \<le> 20000"
      unfolding PARTICLE_CHUNK_def by (cases "?N < 20000") auto
    then show "nat (if ?N < PARTICLE_CHUNK then ?N else PARTICLE_CHUNK) * 16 < 2 ^ 31"
      by (intro chunk_bytes_small) auto
  qed
  have g: "gzf\<lparr>gz_data := []\<rparr> = \<lparr>gz_data = [], gz_close_ok = gz_close_ok gzf\<rparr>"
    by (cases gzf) simp
  show ?thesis
    unfolding updateParticlesFromUni_def option.case gm
    using len magic sanity nz pb01
    by (auto simp add: gzread_def gzread_unused_def Let_def hw mg read_chunked_def rs loop g)
qed

lemma updateMeshFromBobj_no_payload:
  assumes len: "length (gz_data gzf) = 4" and pos: "0 < sint (le32 (gz_data gzf))"
  shows "updateMeshFromBobj getNumVertices u (Some gzf) st
         = Inr (False, st\<lparr>mMeshNodes :=
                  take (nat (sint (le32 (gz_data gzf)))) (mMeshNodes st)
                  @ replicate (nat (sint (le32 (gz_data gzf))) - length (mMeshNodes st))
                      Node0\<rparr>)"
proof -
  let ?d = "gz_data gzf"
  let ?N = "sint (le32 ?d)"
  let ?v = "take (nat ?N) (mMeshNodes st) @ replicate (nat ?N - length (mMeshNodes st)) Node0"
  have rd: "gzread gzf [0, 0, 0, 0] 4 = (4, ?d, gzf\<lparr>gz_data := []\<rparr>)"
    using len by (simp add: gzread_def)
  have rs: "resize Node0 (mMeshNodes st) ?N = Inr ?v"
    using pos by (simp add: resize_def)
  have loop: "chunk_loop NODE_CHUNK put_pos 12 (num_chunks ?N NODE_CHUNK) ?N 0 ?N
                (u_buffer u) (gzf\<lparr>gz_data := []\<rparr>) ?v
              = Inr (False, ?v, gzf\<lparr>gz_data := []\<rparr>)"
  proof (intro chunk_loop_exhausted)
    show "0 < num_chunks ?N NODE_CHUNK"
      using pos by (intro num_chunks_pos) (simp_all add: NODE_CHUNK_def)
    show "0 < ?N" by (rule pos)
    show "gz_data (gzf\<lparr>gz_data := []\<rparr>) = []" by simp
    have "nat (if ?N < NODE_CHUNK then ?N else NODE_CHUNK) \<le> 20000"
      unfolding NODE_CHUNK_def by (cases "?N < 20000") auto
    then show "nat (if ?N < NODE_CHUNK then ?N else NODE_CHUNK) * 12 < 2 ^ 31"
      by (intro chunk_bytes_small) auto
  qed
  have nz: "?N \<noteq> 0" using pos by simp
  show ?thesis
    unfolding updateMeshFromBobj_def option.case rd
    using nz by (simp add: read_vertices_def read_chunked_def rs loop)
qed

subsection \<open>Counts that the chunk count does not cover\<close>

lemma put_pData_eq:
  "put_pData r p = \<lparr>pData_pos = vec3_of r, pData_flag = word_at r 3\<rparr>"
  by (simp add: put_pData_def)

text \<open>The branch of the current particle format, up to the loop.\<close>

lemma updateParticlesFromUni_PB02:
  assumes len: "292 \<le> length (gz_data gzf)"
    and magic: "take 4 (gz_data gzf) = bytes_of_string ''PB02''"
    and sanity: "word_at (drop 4 (gz_data gzf)) 5 = 16 \<or> word_at (drop 4 (gz_data gzf)) 4 \<noteq> 0"
    and pos: "0 < sint (word_at (drop 4 (gz_data gzf)) 0)"
  shows "updateParticlesFromUni u (Some gzf) isSecondarySys isVelData st
         = (case chunk_loop PARTICLE_CHUNK put_pData 16
                   (num_chunks (sint (word_at (drop 4 (gz_data gzf)) 0)) PARTICLE_CHUNK)
                   (sint (word_at (drop 4 (gz_data gzf)) 0)) 0
                   (sint (word_at (drop 4 (gz_data gzf)) 0)) (u_buffer u)
                   (gzf\<lparr>gz_data := drop 292 (gz_data gzf)\<rparr>)
                   (take (nat (sint (word_at (drop 4 (gz_data gzf)) 0)))
                      (dataPointer isSecondarySys st)
                    @ replicate (nat (sint (word_at (drop 4 (gz_data gzf)) 0))
                                 - length (dataPointer isSecondarySys st)) pData0) of
              Inl e \<Rightarrow> Inl e
            | Inr (ok, v, gzf') \<Rightarrow>
                Inr (ok \<and> gz_close_ok gzf', set_dataPointer isSecondarySys v st))"
proof -
  let ?d = "gz_data gzf"
  let ?N = "sint (word_at (drop 4 ?d) 0)"
  obtain fm where gm: "gzread gzf [0, 0, 0, 0, 0] 4
     = (int (min (length ?d) 4), fm, gzf\<lparr>gz_data := drop 4 ?d\<rparr>)"
    and mg0: "\<forall>s. length s = 4 \<longrightarrow> 0 \<notin> set (bytes_of_string s) \<longrightarrow>
           magic_is fm s = (take 4 ?d = bytes_of_string s)"
    using gzread_magic [of gzf] by blast
  note mg = mg0 [rule_format]
  have l28: "28 \<le> length ?d" using len by simp
  note hw = header_words [OF l28]
  have nz: "word_at (drop 4 ?d) 0 \<noteq> 0" using pos by auto
  have pb01: "take 4 ?d \<noteq> bytes_of_string ''PB01''"
    using magic by (simp add: bytes_of_string_def)
  have rs: "resize pData0 (dataPointer isSecondarySys st) ?N
            = Inr (take (nat ?N) (dataPointer isSecondarySys st)
                   @ replicate (nat ?N - length (dataPointer isSecondarySys st)) pData0)"
    using pos by (simp add: resize_def)
  show ?thesis
    unfolding updateParticlesFromUni_def option.case gm
    using len magic sanity nz pb01
    by (auto simp add: gzread_def gzread_unused_def Let_def hw mg read_chunked_def rs)
qed

text \<open>
  A particle file of the current format with up to \<open>2^24\<close> records and a complete payload:
  every record \<open>j\<close> of the file ends in element \<open>j\<close> of the vector.
\<close>

lemma updateParticlesFromUni_reads_all_records:
  assumes len: "292 \<le> length (gz_data gzf)"
    and magic: "take 4 (gz_data gzf) = bytes_of_string ''PB02''"
    and sanity: "word_at (drop 4 (gz_data gzf)) 5 = 16 \<or> word_at (drop 4 (gz_data gzf)) 4 \<noteq> 0"
    and N: "sint (word_at (drop 4 (gz_data gzf)) 0) = int N" "0 < N" "N \<le> 2 ^ 24"
    and avail: "292 + N * 16 \<le> length (gz_data gzf)"
  shows "\<exists>v. updateParticlesFromUni u (Some gzf) isSecondarySys isVelData st
               = Inr (gz_close_ok gzf, set_dataPointer isSecondarySys v st)
             \<and> length v = N
             \<and> (\<forall>j<N. v ! j = \<lparr>pData_pos = vec3_of (take 16 (drop (292 + 16 * j) (gz_data gzf))),
                                  pData_flag = word_at (take 16 (drop (292 + 16 * j)
                                                                   (gz_data gzf))) 3\<rparr>)"
proof -
  let ?d = "gz_data gzf"
  let ?g = "gzf\<lparr>gz_data := drop 292 ?d\<rparr>"
  let ?w = "take N (dataPointer isSecondarySys st)
             @ replicate (N - length (dataPointer isSecondarySys st)) pData0"
  let ?v = "written put_pData 16 (drop 292 ?d) 0 N ?w"
  have l0: "length ?w = N" by simp
  have pos: "0 < sint (word_at (drop 4 ?d) 0)" using N by simp
  let ?Ns = "sint (word_at (drop 4 ?d) 0)"
  have eqC: "PARTICLE_CHUNK = int 20000" by (simp add: PARTICLE_CHUNK_def)
  have "int N \<le> num_chunks (int N) 20000 * 20000"
    using N(2,3) by (intro num_chunks_enough) (simp_all add: le_nat_iff [symmetric] nat_le_iff)
  then have enough: "int N \<le> num_chunks (int N) (int 20000) * int 20000" by simp
  have loop: "chunk_loop PARTICLE_CHUNK put_pData 16 (num_chunks ?Ns PARTICLE_CHUNK) ?Ns 0 ?Ns
                (u_buffer u) ?g
                (take (nat ?Ns) (dataPointer isSecondarySys st)
                 @ replicate (nat ?Ns - length (dataPointer isSecondarySys st)) pData0)
              = Inr (True, written put_pData 16 (gz_data ?g) 0 N ?w,
                     ?g\<lparr>gz_data := drop (N * 16) (gz_data ?g)\<rparr>)"
    unfolding N(1) eqC nat_int
    using enough l0 avail by (intro chunk_loop_complete) auto
  have res: "updateParticlesFromUni u (Some gzf) isSecondarySys isVelData st
             = Inr (gz_close_ok gzf, set_dataPointer isSecondarySys ?v st)"
    unfolding updateParticlesFromUni_PB02 [OF len magic sanity pos] loop by simp
  have el: "?v ! j = \<lparr>pData_pos = vec3_of (take 16 (drop (292 + 16 * j) ?d)),
                       pData_flag = word_at (take 16 (drop (292 + 16 * j) ?d)) 3\<rparr>"
    if "j < N" for j
    using that by (simp add: written_def put_pData_eq add.commute)
  show ?thesis
    using res el by (intro exI [of _ ?v]) simp
qed

lemma length_concat_replicate: "length (concat (replicate n r)) = n * length r"
  by (induction n) simp_all

text \<open>
  With 16780001 records the conversion of the count to \<open>float\<close> gives 16780000, the
  quotient is 839 exactly, and 839 chunks hold 16780000 records: the last record of a
  complete file is not read, element 16780000 stays zero, and the call returns \<open>true\<close>.
\<close>

lemma updateParticlesFromUni_last_record_lost:
  "\<exists>v. updateParticlesFromUni uninit0
          (Some \<lparr>gz_data = uni_part_header ''PB02'' 16780001 0 16
                            @ concat (replicate 16780001
                                       (enc32 1 @ enc32 2 @ enc32 3 @ enc32 4)),
                 gz_close_ok = True\<rparr>)
          True False particles0
        = Inr (True, particles0\<lparr>mSndParticleData := v\<rparr>)
      \<and> length v = 16780001
      \<and> v ! 16780000 = \<lparr>pData_pos = (0, 0, 0), pData_flag = 0\<rparr>"
proof -
  define payload where
    "payload = concat (replicate 16780001 (enc32 1 @ enc32 2 @ enc32 3 @ enc32 4))"
  define gzf where
    "gzf = \<lparr>gz_data = uni_part_header ''PB02'' 16780001 0 16 @ payload, gz_close_ok = True\<rparr>"
  let ?g = "gzf\<lparr>gz_data := drop 292 (gz_data gzf)\<rparr>"
  let ?w = "replicate 16780001 pData0"
  let ?v = "written put_pData 16 payload 0 16780000 ?w"
  have lp: "length payload = 16780001 * 16"
    by (simp add: payload_def length_concat_replicate)
  have lh: "length (uni_part_header ''PB02'' 16780001 0 16) = 292"
    by (simp add: uni_part_header_def bytes_of_string_def)
  have d292: "drop 292 (gz_data gzf) = payload" using lh by (simp add: gzf_def)
  have len: "292 \<le> length (gz_data gzf)" using lh by (simp add: gzf_def)
  have magic: "take 4 (gz_data gzf) = bytes_of_string ''PB02''"
    by (simp add: gzf_def uni_part_header_def bytes_of_string_def)
  have cnt: "word_at (drop 4 (gz_data gzf)) 0 = 16780001"
    by (simp add: gzf_def ev)
  have bpe: "word_at (drop 4 (gz_data gzf)) 5 = 16"
    by (simp add: gzf_def ev)
  have sanity: "word_at (drop 4 (gz_data gzf)) 5 = 16 \<or> word_at (drop 4 (gz_data gzf)) 4 \<noteq> 0"
    using bpe by simp
  have pos: "0 < sint (word_at (drop 4 (gz_data gzf)) 0)" by (simp add: cnt)
  let ?Ns = "sint (word_at (drop 4 (gz_data gzf)) 0)"
  have Ns: "?Ns = int 16780001" by (simp add: cnt)
  have eqC: "PARTICLE_CHUNK = int 20000" by (simp add: PARTICLE_CHUNK_def)
  have ncs: "num_chunks (int 16780001) (int 20000) = 839" by (simp add: nc)
  have dp: "dataPointer True particles0 = []" by (simp add: dataPointer_def particles0_def)
  have loop: "chunk_loop PARTICLE_CHUNK put_pData 16 (num_chunks ?Ns PARTICLE_CHUNK) ?Ns 0 ?Ns
                (u_buffer uninit0) ?g
                (take (nat ?Ns) (dataPointer True particles0)
                 @ replicate (nat ?Ns - length (dataPointer True particles0)) pData0)
              = Inr (True, written put_pData 16 (gz_data ?g) 0 (nat 839 * 20000) ?w,
                     ?g\<lparr>gz_data := drop (nat 839 * 20000 * 16) (gz_data ?g)\<rparr>)"
    unfolding Ns eqC ncs nat_int dp
    using lp d292 by (simp only: take_Nil append_Nil list.size minus_nat.diff_0)
                     (intro chunk_loop_truncated; simp)
  have res: "updateParticlesFromUni uninit0 (Some gzf) True False particles0
             = Inr (gz_close_ok gzf, set_dataPointer True ?v particles0)"
    unfolding updateParticlesFromUni_PB02 [OF len magic sanity pos] loop
    by (simp add: d292)
  have res': "updateParticlesFromUni uninit0 (Some gzf) True False particles0
             = Inr (True, particles0\<lparr>mSndParticleData := ?v\<rparr>)"
    unfolding res by (simp add: set_dataPointer_def gzf_def)
  have last: "?v ! 16780000 = \<lparr>pData_pos = (0, 0, 0), pData_flag = 0\<rparr>"
    by (simp add: written_def pData0_def)
  have "\<exists>v. updateParticlesFromUni uninit0 (Some gzf) True False particles0
               = Inr (True, particles0\<lparr>mSndParticleData := v\<rparr>)
             \<and> length v = 16780001
             \<and> v ! 16780000 = \<lparr>pData_pos = (0, 0, 0), pData_flag = 0\<rparr>"
    using res' last by (intro exI [of _ ?v]) simp
  then show ?thesis unfolding gzf_def payload_def .
qed

text \<open>
  The loop of the normals in \<open>updateMeshFromBobj\<close> runs with the chunk count that was
  computed from the number of vertices. For a file with no vertices and one normal
  \<open>(0, 1, 0)\<close> (the float 1 is \<open>0x3F800000\<close>), read into an empty mesh: the vector is
  resized to one node, the loop does not run, the normal of node 0 stays zero, the count
  of triangles is read from the bytes of the normal, and the call returns \<open>true\<close>.
\<close>

lemma updateMeshFromBobj_normals_skipped:
  "updateMeshFromBobj (\<lambda>nodes. int (length nodes)) uninit0
     (Some \<lparr>gz_data = enc32 0 @ enc32 1 @ (enc32 0 @ enc32 0x3F800000 @ enc32 0) @ enc32 0,
            gz_close_ok = True\<rparr>)
     \<lparr>mMeshNodes = [], mMeshTriangles = [], mMeshVelocities = None\<rparr>
   = Inr (True, \<lparr>mMeshNodes = [\<lparr>node_pos = (0, 0, 0), node_normal = (0, 0, 0)\<rparr>],
                 mMeshTriangles = [], mMeshVelocities = None\<rparr>)"
  by (simp add: updateMeshFromBobj_def read_vertices_def read_normals_def read_triangles_def
        gzread_def enc32_def le32_def nc NODE_CHUNK_def TRIANGLE_CHUNK_def resize_def Node0_def
        chunk_loop.simps uninit0_def)

text \<open>
  With one vertex before it, the same normal is read: the chunk count is then 1.
\<close>

lemma updateMeshFromBobj_normals_read_example:
  "updateMeshFromBobj (\<lambda>nodes. int (length nodes)) uninit0
     (Some \<lparr>gz_data = enc32 1 @ (enc32 0x3F800000 @ enc32 0 @ enc32 0)
                       @ enc32 1 @ (enc32 0 @ enc32 0x3F800000 @ enc32 0) @ enc32 0,
            gz_close_ok = True\<rparr>)
     \<lparr>mMeshNodes = [], mMeshTriangles = [], mMeshVelocities = None\<rparr>
   = Inr (True, \<lparr>mMeshNodes = [\<lparr>node_pos = (0x3F800000, 0, 0),
                                  node_normal = (0, 0x3F800000, 0)\<rparr>],
                 mMeshTriangles = [], mMeshVelocities = None\<rparr>)"
  by (simp add: updateMeshFromBobj_def read_vertices_def read_normals_def read_triangles_def
        read_chunked_def gzread_def enc32_def le32_def nc NODE_CHUNK_def TRIANGLE_CHUNK_def
        resize_def Node0_def chunk_loop.simps uninit0_def CLAMP_def put_pos_def put_normal_def
        vec3_of_def word_at_def)

text \<open>
  C1. The chunked reads are meant to store record \<open>j\<close> of the file in element \<open>j\<close> of the
  vector for every count; \<open>chunk_loop_complete\<close> and
  \<open>updateParticlesFromUni_reads_all_records\<close> show that they do when the chunk count
  covers the count. They do not at these two inputs: a complete particle file of the
  current format with 16780001 records, whose last record is lost to the rounding of the
  chunk count, and a mesh file with one normal and no vertex, whose normal is lost to the
  chunk count of the vertices; both calls return \<open>true\<close>.
\<close>

theorem chunked_read_loses_records:
  "(\<exists>v. updateParticlesFromUni uninit0
          (Some \<lparr>gz_data = uni_part_header ''PB02'' 16780001 0 16
                            @ concat (replicate 16780001
                                       (enc32 1 @ enc32 2 @ enc32 3 @ enc32 4)),
                 gz_close_ok = True\<rparr>)
          True False particles0
        = Inr (True, particles0\<lparr>mSndParticleData := v\<rparr>)
      \<and> length v = 16780001
      \<and> v ! 16780000 = \<lparr>pData_pos = (0, 0, 0), pData_flag = 0\<rparr>)
   \<and> updateMeshFromBobj (\<lambda>nodes. int (length nodes)) uninit0
       (Some \<lparr>gz_data = enc32 0 @ enc32 1 @ (enc32 0 @ enc32 0x3F800000 @ enc32 0) @ enc32 0,
              gz_close_ok = True\<rparr>)
       \<lparr>mMeshNodes = [], mMeshTriangles = [], mMeshVelocities = None\<rparr>
     = Inr (True, \<lparr>mMeshNodes = [\<lparr>node_pos = (0, 0, 0), node_normal = (0, 0, 0)\<rparr>],
                   mMeshTriangles = [], mMeshVelocities = None\<rparr>)"
  by (rule conjI [OF updateParticlesFromUni_last_record_lost
                     updateMeshFromBobj_normals_skipped])

subsection \<open>Reads that return fewer bytes than requested\<close>

text \<open>
  The last chunk of a loop, when the file holds some of its bytes but not all: the read
  returns a count that is not zero, the loop stores all the records of the chunk, those
  past the end of the file from what the buffer held before, and reports success.
\<close>

lemma chunk_loop_short_last_chunk:
  assumes i: "i < numChunks" and t: "0 < t" "t \<le> N" "t \<le> C" and len: "length dst = N"
    and small: "t * sz < 2 ^ 31"
    and short: "gz_data gzf \<noteq> []" "length (gz_data gzf) < t * sz"
  shows "chunk_loop (int C) put sz numChunks (int N) i (int t) buf gzf dst
         = Inr (True,
                written put sz (gz_data gzf @ drop (length (gz_data gzf)) buf) (N - t) t dst,
                gzf\<lparr>gz_data := []\<rparr>)"
proof -
  let ?d = "gz_data gzf"
  let ?buf' = "?d @ drop (length ?d) buf"
  have readLen: "(if int t < int C then int t else int C) = int t" using t by simp
  have rd: "gzread gzf buf (t * sz) = (int (length ?d), ?buf', gzf\<lparr>gz_data := []\<rparr>)"
    using small short by (simp add: gzread_def Let_def)
  have nz: "int (length ?d) \<noteq> 0" using short by simp
  have rs: "CLAMP (int N - int t) 0 (int N) = int (N - t)"
    using t by (simp add: CLAMP_def)
  have re: "CLAMP (int (N - t) + int t) 0 (int N) = int (N - t + t)"
    using t by (simp add: CLAMP_def)
  have st: "store_records put sz ?buf' [N - t..<N - t + t] 0 dst
            = Inr (written put sz ?buf' (N - t) t dst)"
    using t len by (intro store_records_written) simp
  have td: "int t - int t = 0" by simp
  have ex: "chunk_loop (int C) put sz numChunks (int N) (i + 1) 0 ?buf'
              (gzf\<lparr>gz_data := []\<rparr>) (written put sz ?buf' (N - t) t dst)
            = Inr (True, written put sz ?buf' (N - t) t dst, gzf\<lparr>gz_data := []\<rparr>)"
    by (rule chunk_loop_exit) simp
  show ?thesis
    apply (subst chunk_loop.simps)
    apply (simp only: readLen nat_int rd prod.case Let_def nz rs re st sum.case td if_False ex)
    using i t apply simp
    done
qed

text \<open>
  The same for \<open>updateParticlesFromUni\<close> on a file of the current format with one chunk:
  the call returns the status of \<open>gzclose\<close>.
\<close>

lemma updateParticlesFromUni_short_payload:
  assumes len: "292 < length (gz_data gzf)"
    and magic: "take 4 (gz_data gzf) = bytes_of_string ''PB02''"
    and sanity: "word_at (drop 4 (gz_data gzf)) 5 = 16 \<or> word_at (drop 4 (gz_data gzf)) 4 \<noteq> 0"
    and N: "sint (word_at (drop 4 (gz_data gzf)) 0) = int N" "0 < N" "N \<le> 20000"
    and short: "length (gz_data gzf) < 292 + N * 16"
  shows "updateParticlesFromUni u (Some gzf) isSecondarySys isVelData st
         = Inr (gz_close_ok gzf,
                set_dataPointer isSecondarySys
                  (written put_pData 16
                     (drop 292 (gz_data gzf) @ drop (length (gz_data gzf) - 292) (u_buffer u))
                     0 N
                     (take N (dataPointer isSecondarySys st)
                      @ replicate (N - length (dataPointer isSecondarySys st)) pData0))
                  st)"
proof -
  let ?d = "gz_data gzf"
  let ?g = "gzf\<lparr>gz_data := drop 292 ?d\<rparr>"
  let ?w = "take N (dataPointer isSecondarySys st)
             @ replicate (N - length (dataPointer isSecondarySys st)) pData0"
  let ?Ns = "sint (word_at (drop 4 ?d) 0)"
  have l0: "length ?w = N" by simp
  have pos: "0 < ?Ns" using N by simp
  have eqC: "PARTICLE_CHUNK = int 20000" by (simp add: PARTICLE_CHUNK_def)
  have ncp: "0 < num_chunks (int N) (int 20000)"
    using N by (intro num_chunks_pos) simp_all
  have small: "N * 16 < 2 ^ 31" using N(3) by (intro chunk_bytes_small) auto
  have loop: "chunk_loop PARTICLE_CHUNK put_pData 16 (num_chunks ?Ns PARTICLE_CHUNK) ?Ns 0 ?Ns
                (u_buffer u) ?g
                (take (nat ?Ns) (dataPointer isSecondarySys st)
                 @ replicate (nat ?Ns - length (dataPointer isSecondarySys st)) pData0)
              = Inr (True,
                     written put_pData 16
                       (gz_data ?g @ drop (length (gz_data ?g)) (u_buffer u)) (N - N) N ?w,
                     ?g\<lparr>gz_data := []\<rparr>)"
    unfolding N(1) eqC nat_int
    using ncp N l0 small len short by (intro chunk_loop_short_last_chunk) auto
  have len': "292 \<le> length ?d" using len by simp
  show ?thesis
    unfolding updateParticlesFromUni_PB02 [OF len' magic sanity pos] loop
    by simp
qed

lemma upt02: "[0..<2] = [0, Suc 0]"
  by (simp add: upt_rec numeral_2_eq_2)

lemma length_uni_part_header: "length (uni_part_header magic n e b) = length magic + 288"
  by (simp add: uni_part_header_def bytes_of_string_def enc32_def)

text \<open>
  A particle file of the current format that announces two particles and holds one, read
  with a buffer whose bytes are all \<open>0xFF\<close> before the read.
\<close>

lemma updateParticlesFromUni_short_payload_example:
  "updateParticlesFromUni
     (uninit0\<lparr>u_buffer := [0xFF, 0xFF, 0xFF, 0xFF, 0xFF, 0xFF, 0xFF, 0xFF,
                             0xFF, 0xFF, 0xFF, 0xFF, 0xFF, 0xFF, 0xFF, 0xFF,
                             0xFF, 0xFF, 0xFF, 0xFF, 0xFF, 0xFF, 0xFF, 0xFF,
                             0xFF, 0xFF, 0xFF, 0xFF, 0xFF, 0xFF, 0xFF, 0xFF]\<rparr>)
     (Some \<lparr>gz_data = uni_part_header ''PB02'' 2 0 16 @ enc32 1 @ enc32 2 @ enc32 3 @ enc32 4,
            gz_close_ok = True\<rparr>)
     True False particles0
   = Inr (True, particles0\<lparr>mSndParticleData :=
            [\<lparr>pData_pos = (1, 2, 3), pData_flag = 4\<rparr>,
             \<lparr>pData_pos = (0xFFFFFFFF, 0xFFFFFFFF, 0xFFFFFFFF), pData_flag = 0xFFFFFFFF\<rparr>]\<rparr>)"
proof -
  define h where "h = uni_part_header ''PB02'' 2 0 16"
  define p where "p = enc32 1 @ enc32 2 @ enc32 3 @ enc32 (4 :: 32 word)"
  define stale :: "byte list" where
    "stale = [0xFF, 0xFF, 0xFF, 0xFF, 0xFF, 0xFF, 0xFF, 0xFF,
                             0xFF, 0xFF, 0xFF, 0xFF, 0xFF, 0xFF, 0xFF, 0xFF,
                             0xFF, 0xFF, 0xFF, 0xFF, 0xFF, 0xFF, 0xFF, 0xFF,
                             0xFF, 0xFF, 0xFF, 0xFF, 0xFF, 0xFF, 0xFF, 0xFF]"
  define gzf where "gzf = \<lparr>gz_data = h @ p, gz_close_ok = True\<rparr>"
  have lh: "length h = 292" by (simp add: h_def length_uni_part_header)
  have lp: "length p = 16" by (simp add: p_def enc32_def)
  have ls: "length stale = 32" by (simp add: stale_def)
  have d: "gz_data gzf = h @ p" by (simp add: gzf_def)
  have len: "292 < length (gz_data gzf)" by (simp add: d lh lp)
  have t4: "take 4 (h @ p) = take 4 h" using lh by simp
  have magic: "take 4 (gz_data gzf) = bytes_of_string ''PB02''"
    unfolding d t4 by (simp add: h_def uni_part_header_def bytes_of_string_def)
  have w5: "word_at (drop 4 (gz_data gzf)) 5 = 16"
    unfolding d by (simp add: h_def uni_part_header_def bytes_of_string_def word_at_def
          enc32_def le32_def)
  have w0: "word_at (drop 4 (gz_data gzf)) 0 = 2"
    unfolding d by (simp add: h_def uni_part_header_def bytes_of_string_def word_at_def
          enc32_def le32_def)
  have N: "sint (word_at (drop 4 (gz_data gzf)) 0) = int 2" unfolding w0 by simp
  have short: "length (gz_data gzf) < 292 + 2 * 16" by (simp add: d lh lp)
  have bytes: "drop 292 (gz_data gzf) @ drop (length (gz_data gzf) - 292) stale
               = p @ drop 16 stale"
    by (simp add: d lh lp)
  have wr: "written put_pData 16 (p @ drop 16 stale) 0 2 [pData0, pData0]
            = [\<lparr>pData_pos = (1, 2, 3), pData_flag = 4\<rparr>,
               \<lparr>pData_pos = (0xFFFFFFFF, 0xFFFFFFFF, 0xFFFFFFFF), pData_flag = 0xFFFFFFFF\<rparr>]"
    by (simp add: written_def upt02 p_def stale_def put_pData_def vec3_of_def word_at_def
          le32_def enc32_def pData0_def)
  have dst: "take 2 (dataPointer True particles0)
             @ replicate (2 - length (dataPointer True particles0)) pData0 = [pData0, pData0]"
    by (simp add: dataPointer_def particles0_def numeral_2_eq_2)
  have ub: "u_buffer (uninit0\<lparr>u_buffer := stale\<rparr>) = stale" by simp
  have n0: "0 < (2::nat)" and n1: "(2::nat) \<le> 20000" by simp_all
  have "updateParticlesFromUni (uninit0\<lparr>u_buffer := stale\<rparr>) (Some gzf) True False particles0
        = Inr (True, particles0\<lparr>mSndParticleData :=
            [\<lparr>pData_pos = (1, 2, 3), pData_flag = 4\<rparr>,
             \<lparr>pData_pos = (0xFFFFFFFF, 0xFFFFFFFF, 0xFFFFFFFF), pData_flag = 0xFFFFFFFF\<rparr>]\<rparr>)"
    unfolding updateParticlesFromUni_short_payload
                [where N = 2, OF len magic disjI1 [OF w5] N n0 n1 short] ub bytes dst wr
    by (simp add: set_dataPointer_def gzf_def)
  then show ?thesis unfolding gzf_def h_def p_def stale_def .
qed

text \<open>The raw reader, asked for the 8 bytes of a 1 by 1 by 2 grid and given 4 bytes.\<close>

lemma updateGridFromRaw_short_release_example:
  "updateGridFromRaw False solver112 (Some \<lparr>gz_data = [1, 2, 3, 4], gz_close_ok = True\<rparr>)
     [0, 0, 0, 0, 0, 0, 0, 0] False
   = Inr (True, [1, 2, 3, 4, 0, 0, 0, 0])"
  by (simp add: updateGridFromRaw_def solver112_def gzread_def grid_bytes_def)

lemma updateGridFromRaw_short_debug_example:
  "updateGridFromRaw True solver112 (Some \<lparr>gz_data = [1, 2, 3, 4], gz_close_ok = True\<rparr>)
     [0, 0, 0, 0, 0, 0, 0, 0] False
   = Inl AssertionFailed"
  by (simp add: updateGridFromRaw_def solver112_def gzread_def grid_bytes_def)

text \<open>
  C6. A read that returns fewer bytes than requested is meant to abort the whole read:
  \<open>updateGridFromRaw\<close> asserts \<open>expectedBytes == readBytes\<close>. The readers test the
  result of a read only for zero, so a short read is not reported. The raw reader, asked
  for the 8 bytes of a 1 by 1 by 2 grid and given a file of 4 bytes, fails its assertion in
  a debug build and in a release build returns \<open>true\<close> with half of the grid filled.
  \<open>updateParticlesFromUni\<close>, given a file of the current format that announces two
  particles and holds one, returns \<open>true\<close>, the second particle made of the bytes that
  the buffer held before the read.
\<close>

theorem short_read_reported_as_success:
  "updateGridFromRaw False solver112 (Some \<lparr>gz_data = [1, 2, 3, 4], gz_close_ok = True\<rparr>)
     [0, 0, 0, 0, 0, 0, 0, 0] False
   = Inr (True, [1, 2, 3, 4, 0, 0, 0, 0])
   \<and> updateGridFromRaw True solver112 (Some \<lparr>gz_data = [1, 2, 3, 4], gz_close_ok = True\<rparr>)
       [0, 0, 0, 0, 0, 0, 0, 0] False
     = Inl AssertionFailed
   \<and> updateParticlesFromUni
       (uninit0\<lparr>u_buffer := [0xFF, 0xFF, 0xFF, 0xFF, 0xFF, 0xFF, 0xFF, 0xFF,
                               0xFF, 0xFF, 0xFF, 0xFF, 0xFF, 0xFF, 0xFF, 0xFF,
                               0xFF, 0xFF, 0xFF, 0xFF, 0xFF, 0xFF, 0xFF, 0xFF,
                               0xFF, 0xFF, 0xFF, 0xFF, 0xFF, 0xFF, 0xFF, 0xFF]\<rparr>)
       (Some \<lparr>gz_data = uni_part_header ''PB02'' 2 0 16
                         @ enc32 1 @ enc32 2 @ enc32 3 @ enc32 4,
              gz_close_ok = True\<rparr>)
       True False particles0
     = Inr (True, particles0\<lparr>mSndParticleData :=
              [\<lparr>pData_pos = (1, 2, 3), pData_flag = 4\<rparr>,
               \<lparr>pData_pos = (0xFFFFFFFF, 0xFFFFFFFF, 0xFFFFFFFF),
                  pData_flag = 0xFFFFFFFF\<rparr>]\<rparr>)"
  by (intro conjI updateGridFromRaw_short_release_example
        updateGridFromRaw_short_debug_example updateParticlesFromUni_short_payload_example)

end
